theory Spec2Isabelle
  imports Main "HOL-Library.Word" "HOL-Library.Signed_Division"
begin

section \<open>The completion ring and the user-space reader\<close>

text \<open>
  The C types of \<^verbatim>\<open>LibaioContext.c\<close> are modelled as follows.  An \<^verbatim>\<open>unsigned\<close> is a
  \<open>32 word\<close>; an \<^verbatim>\<open>int\<close> that is computed from unsigned values is a \<open>32 word\<close> read
  through \<open>sint\<close>; a \<^verbatim>\<open>long\<close> is a \<open>64 word\<close> read through \<open>sint\<close>; pointers
  (\<^verbatim>\<open>void *\<close>, \<^verbatim>\<open>jobject\<close>, \<^verbatim>\<open>struct iocb *\<close>) are \<open>64 word\<close> addresses with
  \<^verbatim>\<open>NULL\<close> the address 0.  Counters and error numbers that stay far from the limits of
  \<^verbatim>\<open>int\<close> (\<^verbatim>\<open>used\<close>, \<^verbatim>\<open>queueSize\<close>, the results of system calls) are \<open>int\<close>.
  Reads outside an array and a remainder by zero are undefined in C; the model returns a
  \<open>fault\<close> there.
\<close>

type_synonym ptr = "64 word"

datatype fault = OutOfBounds | DivisionByZero

text \<open>
  \<^verbatim>\<open>struct io_event\<close> of libaio and \<^verbatim>\<open>struct aio_ring\<close>, with the fields the code reads
  (it never reads \<^verbatim>\<open>data\<close> and \<^verbatim>\<open>res2\<close> of an event, nor \<^verbatim>\<open>id\<close>, \<^verbatim>\<open>compat_features\<close> and
  \<^verbatim>\<open>header_length\<close> of the ring).  \<^verbatim>\<open>io_events\<close> is the array behind the header.
\<close>

record io_event =
  obj :: ptr
  res :: "64 word"

record aio_ring =
  nr :: "32 word"
  head :: "32 word"
  tail :: "32 word"
  magic :: "32 word"
  incompat_features :: "32 word"
  io_events :: "io_event list"

record timespec =
  tv_sec :: int
  tv_nsec :: int

definition AIO_RING_MAGIC :: "32 word" where
  "AIO_RING_MAGIC = 0xa10a10a1"

definition AIO_RING_INCOMPAT_FEATURES :: "32 word" where
  "AIO_RING_INCOMPAT_FEATURES = 0"

definition has_usable_ring :: "aio_ring \<Rightarrow> bool" where
  "has_usable_ring ring \<longleftrightarrow>
     magic ring = AIO_RING_MAGIC \<and> incompat_features ring = AIO_RING_INCOMPAT_FEATURES"

text \<open>
  The local \<^verbatim>\<open>available\<close>: \<^verbatim>\<open>int available = tail - head\<close> is an unsigned subtraction
  converted to \<^verbatim>\<open>int\<close>; \<^verbatim>\<open>available += ring_nr\<close> adds an unsigned to it, again modulo
  \<open>2 ^ 32\<close>.
\<close>

definition available :: "aio_ring \<Rightarrow> 32 word" where
  "available ring =
     (let a = tail ring - head ring
      in if sint a < 0 then a + nr ring else a)"

text \<open>\<^verbatim>\<open>timeout && timeout->tv_sec == 0 && timeout->tv_nsec == 0\<close>; \<open>None\<close> is the null pointer.\<close>

definition zero_timeout :: "timespec option \<Rightarrow> bool" where
  "zero_timeout timeout =
     (case timeout of None \<Rightarrow> False | Some ts \<Rightarrow> tv_sec ts = 0 \<and> tv_nsec ts = 0)"

text \<open>
  The copy loop \<^verbatim>\<open>for (int i = 0; i < available_nr; i++)\<close>, by recursion on the number of
  iterations left.  It yields the entries stored to \<^verbatim>\<open>events[0]\<close>, \<^verbatim>\<open>events[1]\<close>, ... and the
  final value of \<^verbatim>\<open>head\<close>.
\<close>

fun copy_events :: "aio_ring \<Rightarrow> bool \<Rightarrow> nat \<Rightarrow> 32 word \<Rightarrow> fault + (io_event list \<times> 32 word)" where
  "copy_events ring needMod 0 h = Inr ([], h)"
| "copy_events ring needMod (Suc n) h =
     (if length (io_events ring) \<le> unat h then Inl OutOfBounds
      else if needMod \<and> nr ring = 0 then Inl DivisionByZero
      else
        (case copy_events ring needMod n (if needMod then (h + 1) mod nr ring else h + 1) of
           Inl f \<Rightarrow> Inl f
         | Inr (es, h') \<Rightarrow> Inr (io_events ring ! unat h # es, h')))"

text \<open>
  The outcome of \<^verbatim>\<open>artemis_io_getevents\<close>: either the ring was read in user space
  (return value, the entries written to \<^verbatim>\<open>events\<close>, the ring with the published head), or
  the function returned what the system call \<^verbatim>\<open>io_getevents\<close> returned (its return value and
  the entries it wrote), or the behaviour is undefined.
\<close>

datatype getevents_outcome =
    UserSpace int "io_event list" aio_ring
  | SysCall int "io_event list"
  | Undefined fault

type_synonym io_getevents_t = "64 word \<Rightarrow> 64 word \<Rightarrow> timespec option \<Rightarrow> int \<times> io_event list"

definition artemis_io_getevents ::
  "io_getevents_t \<Rightarrow> aio_ring \<Rightarrow> 64 word \<Rightarrow> 64 word \<Rightarrow> timespec option \<Rightarrow> getevents_outcome" where
  "artemis_io_getevents io_getevents ring min_nr max_nr timeout =
     (if has_usable_ring ring \<and> (sint min_nr \<le> sint (available ring) \<or> zero_timeout timeout) then
        (if available ring = 0 then UserSpace 0 [] ring
         else
           (let available_nr = (if sint (available ring) < sint max_nr then available ring else ucast max_nr);
                needMod = (nr ring \<le> head ring + available_nr)
            in case copy_events ring needMod (nat (sint available_nr)) (head ring) of
                 Inl f \<Rightarrow> Undefined f
               | Inr (es, h') \<Rightarrow> UserSpace (sint available_nr) es (ring\<lparr>head := h'\<rparr>)))
      else
        (case io_getevents min_nr max_nr timeout of (n, es) \<Rightarrow> SysCall n es))"

text \<open>
  A ring as the kernel keeps it: usable, with \<open>head\<close> and \<open>tail\<close> below the number of
  entries, that number below \<open>2 ^ 31\<close>, and one entry per slot.
\<close>

definition ring_ok :: "aio_ring \<Rightarrow> bool" where
  "ring_ok ring \<longleftrightarrow>
     has_usable_ring ring \<and> head ring < nr ring \<and> tail ring < nr ring \<and>
     unat (nr ring) < 2 ^ 31 \<and> length (io_events ring) = unat (nr ring)"


section \<open>The descriptor pool\<close>

text \<open>
  \<^verbatim>\<open>struct iocb\<close> of libaio, with the fields that \<^verbatim>\<open>io_prep_pwrite\<close> and \<^verbatim>\<open>io_prep_pread\<close>
  set and the user-data pointer \<^verbatim>\<open>data\<close>.
\<close>

datatype io_iocb_cmd = IO_CMD_PREAD | IO_CMD_PWRITE

record iocb =
  data :: ptr
  aio_fildes :: int
  aio_lio_opcode :: io_iocb_cmd
  buf :: ptr
  nbytes :: "64 word"
  offset :: "64 word"

definition NULL :: ptr where
  "NULL = 0"

text \<open>The marker \<^verbatim>\<open>(void *) -1\<close> that \<^verbatim>\<open>deleteContext\<close> stores in the descriptor of its dumb write.\<close>

definition MINUS_ONE :: ptr where
  "MINUS_ONE = - 1"

text \<open>
  The pool part of \<^verbatim>\<open>struct io_control\<close>: the array \<^verbatim>\<open>iocb\<close> of descriptor pointers and
  the counters.  The kernel queue, the event buffer and the two mutexes are not part of this
  record: the kernel's answers are arguments of the functions that wait for events, and the
  model is sequential.
\<close>

record io_control =
  iocb :: "ptr list"
  queueSize :: int
  iocbPut :: int
  iocbGet :: int
  used :: int
  thisObject :: ptr

definition getIOCB :: "io_control \<Rightarrow> fault + (ptr \<times> io_control)" where
  "getIOCB control =
     (if used control < queueSize control then
        (if iocbGet control < 0 \<or> int (length (iocb control)) \<le> iocbGet control then Inl OutOfBounds
         else
           Inr (iocb control ! nat (iocbGet control),
                control\<lparr>used := used control + 1,
                        iocbGet := (if queueSize control \<le> iocbGet control + 1 then 0
                                    else iocbGet control + 1)\<rparr>))
      else Inr (NULL, control))"

definition putIOCB :: "io_control \<Rightarrow> ptr \<Rightarrow> fault + io_control" where
  "putIOCB control iocbBack =
     (if iocbPut control < 0 \<or> int (length (iocb control)) \<le> iocbPut control then Inl OutOfBounds
      else
        Inr (control\<lparr>used := used control - 1,
                     iocb := (iocb control)[nat (iocbPut control) := iocbBack],
                     iocbPut := (if queueSize control \<le> iocbPut control + 1 then 0
                                 else iocbPut control + 1)\<rparr>))"

text \<open>
  The state in which \<^verbatim>\<open>newContext\<close> leaves the pool: \<^verbatim>\<open>queueSize\<close> freshly allocated
  descriptors, both indices and \<^verbatim>\<open>used\<close> at zero.
\<close>

definition newContext_pool :: "ptr list \<Rightarrow> ptr \<Rightarrow> io_control" where
  "newContext_pool allocated this =
     \<lparr>iocb = allocated, queueSize = int (length allocated), iocbPut = 0, iocbGet = 0, used = 0,
      thisObject = this\<rparr>"

text \<open>The indices of a pool stay inside its array of \<^verbatim>\<open>queueSize\<close> entries.\<close>

definition pool_ok :: "io_control \<Rightarrow> bool" where
  "pool_ok control \<longleftrightarrow>
     int (length (iocb control)) = queueSize control \<and>
     0 \<le> iocbGet control \<and> iocbGet control < queueSize control \<and>
     0 \<le> iocbPut control \<and> iocbPut control < queueSize control"

text \<open>Sequences of pool operations, run from left to right.\<close>

datatype pool_op = Acquire | Release ptr

fun run_ops :: "io_control \<Rightarrow> pool_op list \<Rightarrow> fault + io_control" where
  "run_ops control [] = Inr control"
| "run_ops control (Acquire # ops) =
     (case getIOCB control of Inl f \<Rightarrow> Inl f | Inr (p, control') \<Rightarrow> run_ops control' ops)"
| "run_ops control (Release p # ops) =
     (case putIOCB control p of Inl f \<Rightarrow> Inl f | Inr control' \<Rightarrow> run_ops control' ops)"

text \<open>
  A sequence is paired when every release gives back a descriptor that an earlier acquire
  of the sequence (or of the past, listed in \<open>held\<close>) handed out and that has not been given
  back since.
\<close>

fun paired :: "io_control \<Rightarrow> ptr list \<Rightarrow> pool_op list \<Rightarrow> bool" where
  "paired control held [] = True"
| "paired control held (Acquire # ops) =
     (case getIOCB control of
        Inl f \<Rightarrow> False
      | Inr (p, control') \<Rightarrow>
          paired control' (if used control < queueSize control then p # held else held) ops)"
| "paired control held (Release p # ops) =
     (p \<in> set held \<and>
      (case putIOCB control p of
         Inl f \<Rightarrow> False
       | Inr control' \<Rightarrow> paired control' (remove1 p held) ops))"

section \<open>The Java side and the submission\<close>

text \<open>
  What the native code does to the Java virtual machine is kept in the state: the live
  global references (\<^verbatim>\<open>NewGlobalRef\<close> adds one, \<^verbatim>\<open>DeleteGlobalRef\<close> removes one; a
  reference is identified with the address of the object it refers to), the pending
  exception set by \<^verbatim>\<open>ThrowNew\<close>, and the Java methods invoked through \<^verbatim>\<open>CallVoidMethod\<close>
  in order: \<^verbatim>\<open>SubmitInfo.onError(int, String)\<close> on a completion handle and
  \<^verbatim>\<open>LibaioContext.done(SubmitInfo)\<close> on the context object.  \<^verbatim>\<open>iocbs\<close> is the memory
  holding the descriptors, \<^verbatim>\<open>syncs\<close> the file descriptors passed to \<^verbatim>\<open>fdatasync\<close>.
\<close>

datatype jthrowable =
    RuntimeException string
  | IOException string
  | ArrayIndexOutOfBoundsException

datatype jcall =
    OnError ptr int string
  | ContextDone ptr ptr

record jni_state =
  control :: io_control
  iocbs :: "ptr \<Rightarrow> iocb"
  dumbWriteHandler :: int
  globalRefs :: "ptr list"
  pending :: "jthrowable option"
  calls :: "jcall list"
  syncs :: "int list"

definition throwRuntimeException :: "jni_state \<Rightarrow> string \<Rightarrow> jni_state" where
  "throwRuntimeException st message = st\<lparr>pending := Some (RuntimeException message)\<rparr>"

definition throwIOException :: "jni_state \<Rightarrow> string \<Rightarrow> jni_state" where
  "throwIOException st message = st\<lparr>pending := Some (IOException message)\<rparr>"

text \<open>\<^verbatim>\<open>strerror\<close> of the C library is an argument.\<close>

definition exceptionMessage :: "(int \<Rightarrow> string) \<Rightarrow> string \<Rightarrow> int \<Rightarrow> string" where
  "exceptionMessage strerror msg error =
     msg @ strerror (if error < 0 then error * - 1 else error)"

definition throwRuntimeExceptionErrorNo ::
  "(int \<Rightarrow> string) \<Rightarrow> jni_state \<Rightarrow> string \<Rightarrow> int \<Rightarrow> jni_state" where
  "throwRuntimeExceptionErrorNo strerror st message errorNumber =
     st\<lparr>pending := Some (RuntimeException (exceptionMessage strerror message errorNumber))\<rparr>"

definition throwIOExceptionErrorNo ::
  "(int \<Rightarrow> string) \<Rightarrow> jni_state \<Rightarrow> string \<Rightarrow> int \<Rightarrow> jni_state" where
  "throwIOExceptionErrorNo strerror st message errorNumber =
     st\<lparr>pending := Some (IOException (exceptionMessage strerror message errorNumber))\<rparr>"

definition NewGlobalRef :: "jni_state \<Rightarrow> ptr \<Rightarrow> ptr \<times> jni_state" where
  "NewGlobalRef st object =
     (if object = NULL then (NULL, st) else (object, st\<lparr>globalRefs := object # globalRefs st\<rparr>))"

definition DeleteGlobalRef :: "jni_state \<Rightarrow> ptr \<Rightarrow> jni_state" where
  "DeleteGlobalRef st gref = st\<lparr>globalRefs := remove1 gref (globalRefs st)\<rparr>"

definition CallVoidMethod :: "jni_state \<Rightarrow> jcall \<Rightarrow> jni_state" where
  "CallVoidMethod st c = st\<lparr>calls := calls st @ [c]\<rparr>"

definition fdatasync :: "jni_state \<Rightarrow> int \<Rightarrow> jni_state" where
  "fdatasync st fd = st\<lparr>syncs := syncs st @ [fd]\<rparr>"

text \<open>
  \<^verbatim>\<open>submit\<close>; \<open>result\<close> is what \<^verbatim>\<open>io_submit\<close> returned for the descriptor.  The return
  value is the \<^verbatim>\<open>short\<close> 0 or 1.
\<close>

definition submit :: "(int \<Rightarrow> string) \<Rightarrow> int \<Rightarrow> jni_state \<Rightarrow> ptr \<Rightarrow> fault + (jni_state \<times> int)" where
  "submit strerror result st iocbp =
     (if result < 0 then
        (let st1 = (if data (iocbs st iocbp) \<noteq> NULL \<and> data (iocbs st iocbp) \<noteq> MINUS_ONE
                    then DeleteGlobalRef st (data (iocbs st iocbp)) else st)
         in case putIOCB (control st1) iocbp of
              Inl f \<Rightarrow> Inl f
            | Inr c \<Rightarrow>
                Inr (throwIOExceptionErrorNo strerror (st1\<lparr>control := c\<rparr>)
                       ''Error while submitting IO: '' (- result), 0))
      else Inr (st, 1))"

text \<open>The inline functions \<^verbatim>\<open>io_prep_pwrite\<close> and \<^verbatim>\<open>io_prep_pread\<close> of libaio clear the descriptor and fill it.\<close>

definition io_prep_pwrite :: "int \<Rightarrow> ptr \<Rightarrow> 64 word \<Rightarrow> 64 word \<Rightarrow> iocb" where
  "io_prep_pwrite fd b count off =
     \<lparr>data = NULL, aio_fildes = fd, aio_lio_opcode = IO_CMD_PWRITE, buf = b, nbytes = count,
      offset = off\<rparr>"

definition io_prep_pread :: "int \<Rightarrow> ptr \<Rightarrow> 64 word \<Rightarrow> 64 word \<Rightarrow> iocb" where
  "io_prep_pread fd b count off =
     \<lparr>data = NULL, aio_fildes = fd, aio_lio_opcode = IO_CMD_PREAD, buf = b, nbytes = count,
      offset = off\<rparr>"

text \<open>
  \<^verbatim>\<open>submitWrite\<close> and \<^verbatim>\<open>submitRead\<close>.  \<open>address\<close> is the address field of the context
  pointer (\<^verbatim>\<open>getIOControl\<close> throws when it is null), \<open>buffer\<close> the address field of the
  buffer, \<open>sz\<close> the argument \<^verbatim>\<open>size\<close>, \<open>result\<close> the answer of \<^verbatim>\<open>io_submit\<close> should it be called.
\<close>

definition submitWrite ::
  "(int \<Rightarrow> string) \<Rightarrow> int \<Rightarrow> jni_state \<Rightarrow> ptr \<Rightarrow> int \<Rightarrow> 64 word \<Rightarrow> int \<Rightarrow> ptr \<Rightarrow> ptr \<Rightarrow> fault + jni_state" where
  "submitWrite strerror result st address fileHandle position sz buffer callback =
     (if address = NULL then Inr (throwRuntimeException st ''Controller not initialized'')
      else
        (case getIOCB (control st) of
           Inl f \<Rightarrow> Inl f
         | Inr (iocbp, c) \<Rightarrow>
             if iocbp = NULL then
               Inr (throwIOException (st\<lparr>control := c\<rparr>) ''Not enough space in libaio queue'')
             else
               (case NewGlobalRef (st\<lparr>control := c\<rparr>) callback of
                  (gref, st1) \<Rightarrow>
                    (case submit strerror result
                            (st1\<lparr>iocbs := (iocbs st1)
                                   (iocbp := (io_prep_pwrite fileHandle buffer (word_of_int sz) position)
                                               \<lparr>data := gref\<rparr>)\<rparr>)
                            iocbp of
                       Inl f \<Rightarrow> Inl f
                     | Inr (st2, ok) \<Rightarrow> Inr st2))))"

definition submitRead ::
  "(int \<Rightarrow> string) \<Rightarrow> int \<Rightarrow> jni_state \<Rightarrow> ptr \<Rightarrow> int \<Rightarrow> 64 word \<Rightarrow> int \<Rightarrow> ptr \<Rightarrow> ptr \<Rightarrow> fault + jni_state" where
  "submitRead strerror result st address fileHandle position sz buffer callback =
     (if address = NULL then Inr (throwRuntimeException st ''Controller not initialized'')
      else
        (case getIOCB (control st) of
           Inl f \<Rightarrow> Inl f
         | Inr (iocbp, c) \<Rightarrow>
             if iocbp = NULL then
               Inr (throwIOException (st\<lparr>control := c\<rparr>) ''Not enough space in libaio queue'')
             else
               (case NewGlobalRef (st\<lparr>control := c\<rparr>) callback of
                  (gref, st1) \<Rightarrow>
                    (case submit strerror result
                            (st1\<lparr>iocbs := (iocbs st1)
                                   (iocbp := (io_prep_pread fileHandle buffer (word_of_int sz) position)
                                               \<lparr>data := gref\<rparr>)\<rparr>)
                            iocbp of
                       Inl f \<Rightarrow> Inl f
                     | Inr (st2, ok) \<Rightarrow> Inr st2))))"

section \<open>Harvesting completions\<close>

text \<open>\<^verbatim>\<open>int eventResult = (int)event->res\<close>: the low 32 bits of the result, read as signed.\<close>

definition eventResult :: "io_event \<Rightarrow> int" where
  "eventResult event = sint (ucast (res event) :: 32 word)"

text \<open>The error number \<^verbatim>\<open>EINTR\<close> of Linux.\<close>

definition EINTR :: int where
  "EINTR = 4"

text \<open>
  What one call of \<^verbatim>\<open>artemis_io_getevents\<close> finds: the ring in the memory shared with the
  kernel, and the behaviour of the system call \<^verbatim>\<open>io_getevents\<close> at that moment.  A system
  call that returns \<open>n \<ge> 0\<close> has written \<open>n\<close> events.
\<close>

record kernel_view =
  ring_seen :: aio_ring
  io_getevents :: io_getevents_t

text \<open>The return value and the events left in \<^verbatim>\<open>theControl->events\<close>.\<close>

fun returned :: "getevents_outcome \<Rightarrow> fault + (int \<times> io_event list)" where
  "returned (UserSpace n es ring) = Inr (n, es)"
| "returned (SysCall n es) = Inr (n, es)"
| "returned (Undefined f) = Inl f"

text \<open>
  The inner loop of \<^verbatim>\<open>blockedPoll\<close> over the events of one batch.  The result holds the
  flag \<^verbatim>\<open>running\<close>.
\<close>

fun blockedPoll_events ::
  "(int \<Rightarrow> string) \<Rightarrow> bool \<Rightarrow> jni_state \<Rightarrow> int \<Rightarrow> io_event list \<Rightarrow> fault + (jni_state \<times> bool)" where
  "blockedPoll_events strerror useFdatasync st lastFile [] = Inr (st, True)"
| "blockedPoll_events strerror useFdatasync st lastFile (event # rest) =
     (if aio_fildes (iocbs st (obj event)) = dumbWriteHandler st then
        (case putIOCB (control st) (obj event) of
           Inl f \<Rightarrow> Inl f
         | Inr c \<Rightarrow> Inr (st\<lparr>control := c\<rparr>, False))
      else
        (let d = iocbs st (obj event);
             sync = (useFdatasync \<and> lastFile \<noteq> aio_fildes d);
             st1 = (if sync then fdatasync st (aio_fildes d) else st);
             st2 = (if eventResult event < 0 \<and> data d \<noteq> NULL
                    then CallVoidMethod st1
                           (OnError (data d) (- eventResult event) (strerror (- eventResult event)))
                    else st1)
         in case putIOCB (control st2) (obj event) of
              Inl f \<Rightarrow> Inl f
            | Inr c \<Rightarrow>
                blockedPoll_events strerror useFdatasync
                  (if data d \<noteq> NULL
                   then DeleteGlobalRef
                          (CallVoidMethod (st2\<lparr>control := c\<rparr>) (ContextDone (thisObject c) (data d)))
                          (data d)
                   else st2\<lparr>control := c\<rparr>)
                  (if sync then aio_fildes d else lastFile) rest))"

text \<open>
  How \<^verbatim>\<open>blockedPoll\<close> ends: the dumb write arrived (\<^verbatim>\<open>running = 0\<close>), the wait failed and
  an exception was thrown, the context pointer was null, or the kernel has not answered the
  last wait and the thread is still inside it.
\<close>

datatype poll_end = DumbWriteArrived | WaitFailed | NotInitialized | StillWaiting

text \<open>
  The loop \<^verbatim>\<open>while (running)\<close>, one kernel view for each wait.  The inner loop reads
  \<^verbatim>\<open>events[0]\<close> to \<^verbatim>\<open>events[result - 1]\<close>, the entries the wait has just written.  A head
  published by one wait goes to the kernel; what the next wait finds is given by its own
  view.
\<close>

fun blockedPoll_loop ::
  "(int \<Rightarrow> string) \<Rightarrow> bool \<Rightarrow> jni_state \<Rightarrow> kernel_view list \<Rightarrow> fault + (jni_state \<times> poll_end)" where
  "blockedPoll_loop strerror useFdatasync st [] = Inr (st, StillWaiting)"
| "blockedPoll_loop strerror useFdatasync st (k # ks) =
     (case returned (artemis_io_getevents (io_getevents k) (ring_seen k) 1
                       (word_of_int (queueSize (control st))) None) of
        Inl f \<Rightarrow> Inl f
      | Inr (result, es) \<Rightarrow>
          if result = - EINTR then blockedPoll_loop strerror useFdatasync st ks
          else if result < 0 then
            Inr (throwIOExceptionErrorNo strerror st ''Error while calling io_getevents IO: ''
                   (- result), WaitFailed)
          else
            (case blockedPoll_events strerror useFdatasync st (- 1) (take (nat result) es) of
               Inl f \<Rightarrow> Inl f
             | Inr (st', running) \<Rightarrow>
                 if running then blockedPoll_loop strerror useFdatasync st' ks
                 else Inr (st', DumbWriteArrived)))"

definition blockedPoll ::
  "(int \<Rightarrow> string) \<Rightarrow> jni_state \<Rightarrow> ptr \<Rightarrow> bool \<Rightarrow> kernel_view list \<Rightarrow> fault + (jni_state \<times> poll_end)" where
  "blockedPoll strerror st address useFdatasync ks =
     (if address = NULL then
        Inr (throwRuntimeException st ''Controller not initialized'', NotInitialized)
      else blockedPoll_loop strerror useFdatasync st ks)"

text \<open>
  \<^verbatim>\<open>SetObjectArrayElement\<close> stores into a Java array and throws when the index is outside
  of it.
\<close>

definition SetObjectArrayElement :: "jni_state \<Rightarrow> ptr list \<Rightarrow> nat \<Rightarrow> ptr \<Rightarrow> ptr list \<times> jni_state" where
  "SetObjectArrayElement st array i v =
     (if i < length array then (array[i := v], st)
      else (array, st\<lparr>pending := Some ArrayIndexOutOfBoundsException\<rparr>))"

text \<open>The loop of \<^verbatim>\<open>poll\<close> over the events, from index \<open>i\<close> on.\<close>

fun poll_events ::
  "(int \<Rightarrow> string) \<Rightarrow> jni_state \<Rightarrow> ptr list \<Rightarrow> nat \<Rightarrow> io_event list \<Rightarrow> fault + (jni_state \<times> ptr list)" where
  "poll_events strerror st callbacks i [] = Inr (st, callbacks)"
| "poll_events strerror st callbacks i (event # rest) =
     (let d = iocbs st (obj event);
          st1 = (if eventResult event < 0 \<and> data d \<noteq> NULL \<and> data d \<noteq> MINUS_ONE
                 then CallVoidMethod st
                        (OnError (data d) (- eventResult event) (strerror (- eventResult event)))
                 else st)
      in case (if data d \<noteq> NULL \<and> data d \<noteq> MINUS_ONE
               then (case SetObjectArrayElement st1 callbacks i (data d) of
                       (callbacks', st2) \<Rightarrow> (callbacks', DeleteGlobalRef st2 (data d)))
               else (callbacks, st1)) of
           (callbacks', st3) \<Rightarrow>
             (case putIOCB (control st3) (obj event) of
                Inl f \<Rightarrow> Inl f
              | Inr c \<Rightarrow> poll_events strerror (st3\<lparr>control := c\<rparr>) callbacks' (Suc i) rest))"

text \<open>\<^verbatim>\<open>poll\<close>: the state, the array \<^verbatim>\<open>callbacks\<close> and the returned \<^verbatim>\<open>jint\<close>.\<close>

definition poll ::
  "(int \<Rightarrow> string) \<Rightarrow> jni_state \<Rightarrow> ptr \<Rightarrow> ptr list \<Rightarrow> int \<Rightarrow> int \<Rightarrow> kernel_view \<Rightarrow>
     fault + (jni_state \<times> ptr list \<times> int)" where
  "poll strerror st address callbacks min_arg max_arg k =
     (if address = NULL then
        Inr (throwRuntimeException st ''Controller not initialized'', callbacks, 0)
      else
        (case returned (artemis_io_getevents (io_getevents k) (ring_seen k)
                          (word_of_int min_arg) (word_of_int max_arg) None) of
           Inl f \<Rightarrow> Inl f
         | Inr (result, es) \<Rightarrow>
             (case poll_events strerror st callbacks 0 (take (nat result) es) of
                Inl f \<Rightarrow> Inl f
              | Inr (st', callbacks') \<Rightarrow> Inr (st', callbacks', result))))"

section \<open>Aligned buffers\<close>

text \<open>
  \<^verbatim>\<open>posix_memalign\<close> is an argument: from the alignment and the size (both \<^verbatim>\<open>size_t\<close>) it
  yields its return value and the bytes found in the new block, by offset.  A direct byte
  buffer shows the first \<^verbatim>\<open>capacity\<close> bytes of its block.
\<close>

definition memset :: "(nat \<Rightarrow> 8 word) \<Rightarrow> 8 word \<Rightarrow> nat \<Rightarrow> nat \<Rightarrow> 8 word" where
  "memset block c n = (\<lambda>i. if i < n then c else block i)"

record direct_buffer =
  bytes :: "8 word list"
  capacity :: int

definition NewDirectByteBuffer :: "(nat \<Rightarrow> 8 word) \<Rightarrow> int \<Rightarrow> direct_buffer" where
  "NewDirectByteBuffer block cap = \<lparr>bytes = map block [0..<nat cap], capacity = cap\<rparr>"

definition newAlignedBuffer ::
  "(int \<Rightarrow> string) \<Rightarrow> (64 word \<Rightarrow> 64 word \<Rightarrow> int \<times> (nat \<Rightarrow> 8 word)) \<Rightarrow> jni_state \<Rightarrow> int \<Rightarrow> int \<Rightarrow>
     fault + (jni_state \<times> direct_buffer option)" where
  "newAlignedBuffer strerror posix_memalign st sz alignment =
     (if alignment = 0 then Inl DivisionByZero
      else if sz smod alignment \<noteq> 0 then
        Inr (throwRuntimeException st ''Buffer size needs to be aligned to passed argument'', None)
      else
        (case posix_memalign (word_of_int alignment) (word_of_int sz) of
           (result, block) \<Rightarrow>
             if result \<noteq> 0 then
               Inr (throwRuntimeExceptionErrorNo strerror st ''Can't allocate posix buffer:'' result,
                    None)
             else
               Inr (st, Some (NewDirectByteBuffer
                                (memset block 0 (unat (word_of_int sz :: 64 word))) sz))))"

section \<open>What a harvest is asked to deliver\<close>

text \<open>
  \<^verbatim>\<open>blockedPoll\<close> takes a completion for the dumb write of \<^verbatim>\<open>deleteContext\<close> when its
  descriptor targets \<^verbatim>\<open>dumbWriteHandler\<close>.
\<close>

definition is_dumb :: "jni_state \<Rightarrow> io_event \<Rightarrow> bool" where
  "is_dumb st event \<longleftrightarrow> aio_fildes (iocbs st (obj event)) = dumbWriteHandler st"

text \<open>The events of a batch that come before its first dumb write.\<close>

definition before_dumb :: "jni_state \<Rightarrow> io_event list \<Rightarrow> io_event list" where
  "before_dumb st es = takeWhile (\<lambda>e. \<not> is_dumb st e) es"

text \<open>
  The calls the error-handling design asks for, for one completion whose descriptor holds a
  handle: \<^verbatim>\<open>onError\<close> once when the result is negative and not at all otherwise, then the
  done notification once.  A descriptor without a handle gets no call.
\<close>

definition delivered :: "(int \<Rightarrow> string) \<Rightarrow> jni_state \<Rightarrow> io_event \<Rightarrow> jcall list" where
  "delivered strerror st event =
     (if data (iocbs st (obj event)) = NULL then []
      else
        (if eventResult event < 0
         then [OnError (data (iocbs st (obj event))) (- eventResult event)
                 (strerror (- eventResult event))]
         else []) @
        [ContextDone (thisObject (control st)) (data (iocbs st (obj event)))])"

text \<open>\<^verbatim>\<open>poll\<close> takes a user-data slot for a handle when it is neither null nor \<^verbatim>\<open>(void *) -1\<close>.\<close>

definition has_handle :: "jni_state \<Rightarrow> io_event \<Rightarrow> bool" where
  "has_handle st event \<longleftrightarrow>
     data (iocbs st (obj event)) \<noteq> NULL \<and> data (iocbs st (obj event)) \<noteq> MINUS_ONE"

text \<open>The only call \<^verbatim>\<open>poll\<close> makes for a completion: \<^verbatim>\<open>onError\<close> for a handle and a negative result.\<close>

definition poll_calls :: "(int \<Rightarrow> string) \<Rightarrow> jni_state \<Rightarrow> io_event \<Rightarrow> jcall list" where
  "poll_calls strerror st event =
     (if has_handle st event \<and> eventResult event < 0
      then [OnError (data (iocbs st (obj event))) (- eventResult event)
              (strerror (- eventResult event))]
      else [])"

text \<open>
  The array \<^verbatim>\<open>callbacks\<close> after \<^verbatim>\<open>poll\<close> has gone through the events \<open>es\<close>: slot \<open>j\<close> holds
  the handle of event \<open>j\<close> when that event has one, and what it held before otherwise.
\<close>

definition callbacks_after :: "jni_state \<Rightarrow> ptr list \<Rightarrow> io_event list \<Rightarrow> ptr list" where
  "callbacks_after st callbacks es =
     map (\<lambda>j. if j < length es \<and> has_handle st (es ! j) then data (iocbs st (obj (es ! j)))
               else callbacks ! j)
       [0..<length callbacks]"

section \<open>Concrete data for the closed instances\<close>

definition ev :: "nat \<Rightarrow> io_event" where
  "ev n = \<lparr>obj = word_of_nat n, res = 0\<rparr>"

text \<open>A ring of four slots that has wrapped: two completions at slots 3 and 0.\<close>

definition ring_wrapped :: aio_ring where
  "ring_wrapped =
     \<lparr>nr = 4, head = 3, tail = 1, magic = 0xa10a10a1, incompat_features = 0,
      io_events = [ev 10, ev 11, ev 12, ev 13]\<rparr>"

text \<open>A ring of four slots with nothing to read.\<close>

definition ring_empty :: aio_ring where
  "ring_empty =
     \<lparr>nr = 4, head = 2, tail = 2, magic = 0xa10a10a1, incompat_features = 0,
      io_events = [ev 10, ev 11, ev 12, ev 13]\<rparr>"

text \<open>A system call that waits and comes back with one completion.\<close>

definition syscall_one :: io_getevents_t where
  "syscall_one min_nr max_nr timeout = (1, [ev 12])"

text \<open>A pool of two descriptors as \<^verbatim>\<open>newContext\<close> leaves it.\<close>

definition pool_two :: io_control where
  "pool_two = newContext_pool [0x2000, 0x1000] 0x77"

text \<open>Error texts standing for \<^verbatim>\<open>strerror\<close>.\<close>

definition strerror_text :: "int \<Rightarrow> string" where
  "strerror_text n =
     (if n = 4 then ''Interrupted system call''
      else if n = 11 then ''Resource temporarily unavailable''
      else ''Unknown error'')"

text \<open>
  Two descriptors in flight: the one at \<open>0x1000\<close> is the dumb write (file descriptor 9, marker
  \<open>-1\<close>), the one at \<open>0x2000\<close> a write of 4096 bytes to file descriptor 5 with the handle
  \<open>0x500\<close>.
\<close>

definition iocbs_two :: "ptr \<Rightarrow> iocb" where
  "iocbs_two p =
     (if p = 0x1000 then (io_prep_pwrite 9 NULL 0 0)\<lparr>data := MINUS_ONE\<rparr>
      else (io_prep_pwrite 5 0x9000 4096 0)\<lparr>data := 0x500\<rparr>)"

definition st_two :: jni_state where
  "st_two =
     \<lparr>control = pool_two\<lparr>used := 2\<rparr>, iocbs = iocbs_two, dumbWriteHandler = 9,
      globalRefs = [0x500], pending = None, calls = [], syncs = []\<rparr>"

text \<open>One descriptor acquired from the fresh pool and filled, about to be submitted.\<close>

definition st_filled :: jni_state where
  "st_filled =
     \<lparr>control = pool_two\<lparr>used := 1, iocbGet := 1\<rparr>, iocbs = iocbs_two, dumbWriteHandler = 9,
      globalRefs = [0x500], pending = None, calls = [], syncs = []\<rparr>"

text \<open>Kernel views: a system call that is interrupted, one that fails, and batches of completions.\<close>

definition syscall_eintr :: io_getevents_t where
  "syscall_eintr min_nr max_nr timeout = (- 4, [])"

definition syscall_einval :: io_getevents_t where
  "syscall_einval min_nr max_nr timeout = (- 22, [])"

definition syscall_dumb_first :: io_getevents_t where
  "syscall_dumb_first min_nr max_nr timeout =
     (2, [\<lparr>obj = 0x1000, res = 0\<rparr>, \<lparr>obj = 0x2000, res = 4096\<rparr>])"

definition syscall_dumb_last :: io_getevents_t where
  "syscall_dumb_last min_nr max_nr timeout =
     (2, [\<lparr>obj = 0x2000, res = - 5\<rparr>, \<lparr>obj = 0x1000, res = 0\<rparr>])"

definition view_eintr :: kernel_view where
  "view_eintr = \<lparr>ring_seen = ring_empty, io_getevents = syscall_eintr\<rparr>"

definition view_einval :: kernel_view where
  "view_einval = \<lparr>ring_seen = ring_empty, io_getevents = syscall_einval\<rparr>"

definition view_dumb_first :: kernel_view where
  "view_dumb_first = \<lparr>ring_seen = ring_empty, io_getevents = syscall_dumb_first\<rparr>"

definition view_dumb_last :: kernel_view where
  "view_dumb_last = \<lparr>ring_seen = ring_empty, io_getevents = syscall_dumb_last\<rparr>"

text \<open>A block of memory as \<^verbatim>\<open>posix_memalign\<close> may hand it out, not yet initialised.\<close>

definition block_dirty :: "nat \<Rightarrow> 8 word" where
  "block_dirty i = 0xAA"

definition memalign_ok :: "64 word \<Rightarrow> 64 word \<Rightarrow> int \<times> (nat \<Rightarrow> 8 word)" where
  "memalign_ok alignment sz = (0, block_dirty)"

section \<open>Arithmetic of the reader\<close>

lemma sint_small:
  "- (2 ^ 31) \<le> k \<Longrightarrow> k < 2 ^ 31 \<Longrightarrow> sint (word_of_int k :: 32 word) = k"
  by (simp add: sint_sbintrunc' signed_take_bit_int_eq_self)

lemma word_sub_int: "(t :: 32 word) - h = word_of_int (uint t - uint h)"
  by simp

lemma unat_lt_uint: "unat (w :: 32 word) < 2 ^ 31 \<Longrightarrow> uint w < 2 ^ 31"
proof -
  assume "unat w < 2 ^ 31"
  then have "int (unat w) < int (2 ^ 31)" by (simp only: of_nat_less_iff)
  then show ?thesis by simp
qed

lemma uint_of_sint_nonneg:
  assumes "0 \<le> sint (w :: 64 word)"
  shows "uint w = sint w"
proof -
  have "sint w < 2 ^ 64" using sint_lt[of w] by simp
  then have "take_bit 64 (sint w) = sint w" using assms by (simp add: take_bit_int_eq_self)
  then show ?thesis using uint_sint[of w] by simp
qed

lemma uint_word_of_int_small:
  assumes "0 \<le> k" "k < 2 ^ 31"
  shows "uint (word_of_int k :: 32 word) = k"
proof -
  have "k < 2 ^ 32" using assms(2) by simp
  then have "k mod 2 ^ 32 = k" using assms(1) by (intro mod_pos_pos_trivial)
  then show ?thesis by (simp add: uint_word_of_int)
qed

lemma unat_word_of_int_small:
  assumes "0 \<le> k" "k < 2 ^ 31"
  shows "unat (word_of_int k :: 32 word) = nat k"
  using uint_word_of_int_small[OF assms] by (simp add: unat_eq_nat_uint)

lemma unat_add_small:
  "unat a + unat b < 2 ^ 32 \<Longrightarrow> unat (a + b :: 32 word) = unat a + unat b"
  by (simp add: unat_word_ariths)

lemma unat_succ_below:
  assumes "(h :: 32 word) < n"
  shows "unat (h + 1) = unat h + 1"
proof -
  have "unat h < unat n" using assms by (simp only: word_less_nat_alt)
  moreover have "unat n < 2 ^ 32" using unsigned_less[of n, where ?'a = nat] by simp
  ultimately have "unat h + unat (1 :: 32 word) < 2 ^ 32" by simp
  then have "unat (h + 1) = unat h + unat (1 :: 32 word)" by (rule unat_add_small)
  then show ?thesis by simp
qed

lemma ring_ok_bounds:
  assumes "ring_ok r"
  shows "uint (head r) < uint (nr r)" "uint (tail r) < uint (nr r)" "uint (nr r) < 2 ^ 31"
    "0 \<le> uint (head r)" "0 \<le> uint (tail r)"
proof -
  from assms have h: "head r < nr r" and t: "tail r < nr r" and n: "unat (nr r) < 2 ^ 31"
    unfolding ring_ok_def by blast+
  show "uint (head r) < uint (nr r)" using h by (simp only: word_less_def)
  show "uint (tail r) < uint (nr r)" using t by (simp only: word_less_def)
  show "uint (nr r) < 2 ^ 31" using n by (rule unat_lt_uint)
  show "0 \<le> uint (head r)" "0 \<le> uint (tail r)" by simp_all
qed

lemma available_word:
  assumes "ring_ok r"
  shows "available r = word_of_int ((uint (tail r) - uint (head r)) mod uint (nr r))"
proof -
  note b = ring_ok_bounds[OF assms]
  let ?d = "uint (tail r) - uint (head r)"
  have d: "- (2 ^ 31) \<le> ?d" "?d < 2 ^ 31" using b by linarith+
  have s: "sint (tail r - head r) = ?d"
    unfolding word_sub_int using d by (rule sint_small)
  show ?thesis
  proof (cases "?d < 0")
    case True
    have "?d mod uint (nr r) = ?d + uint (nr r)"
      using True b by (smt (verit) mod_add_self2 mod_pos_pos_trivial)
    then show ?thesis using True s by (simp add: available_def Let_def)
  next
    case False
    have "?d mod uint (nr r) = ?d"
      using False b by (intro mod_pos_pos_trivial) linarith+
    then show ?thesis using False s by (simp add: available_def Let_def)
  qed
qed

lemma available_range:
  assumes "ring_ok r"
  shows "0 \<le> (uint (tail r) - uint (head r)) mod uint (nr r)"
    "(uint (tail r) - uint (head r)) mod uint (nr r) < uint (nr r)"
    "(uint (tail r) - uint (head r)) mod uint (nr r) < 2 ^ 31"
proof -
  note b = ring_ok_bounds[OF assms]
  have n: "0 < uint (nr r)" using b by linarith
  show "0 \<le> (uint (tail r) - uint (head r)) mod uint (nr r)" using n by simp
  show lt: "(uint (tail r) - uint (head r)) mod uint (nr r) < uint (nr r)" using n by simp
  show "(uint (tail r) - uint (head r)) mod uint (nr r) < 2 ^ 31" using lt b(3) by linarith
qed

lemma available_sint:
  assumes "ring_ok r"
  shows "sint (available r) = (uint (tail r) - uint (head r)) mod uint (nr r)"
  unfolding available_word[OF assms] using available_range[OF assms]
  by (intro sint_small) linarith+

lemma available_unat:
  assumes "ring_ok r"
  shows "unat (available r) = nat (sint (available r))"
  unfolding available_sint[OF assms] unfolding available_word[OF assms]
  using available_range[OF assms] by (intro unat_word_of_int_small)

lemma copy_events_mod:
  assumes "length (io_events r) = unat (nr r)" "h < nr r"
  shows "copy_events r True n h =
     Inr (map (\<lambda>k. io_events r ! ((unat h + k) mod unat (nr r))) [0..<n],
          word_of_nat ((unat h + n) mod unat (nr r)))"
  using assms(2)
proof (induction n arbitrary: h)
  case 0
  then show ?case by (simp add: word_less_nat_alt)
next
  case (Suc n)
  let ?N = "unat (nr r)"
  let ?h' = "(h + 1) mod nr r"
  from Suc.prems have hN: "unat h < ?N" by (simp only: word_less_nat_alt)
  then have nz: "nr r \<noteq> 0" by auto
  have u1: "unat (h + 1) = unat h + 1"
    using Suc.prems by (rule unat_succ_below)
  have uh': "unat ?h' = (unat h + 1) mod ?N"
    by (simp only: unat_mod u1)
  have "unat ?h' < ?N" unfolding uh' using hN by simp
  then have lt: "?h' < nr r" by (simp only: word_less_nat_alt)
  have idx: "\<And>k. (unat ?h' + k) mod ?N = (unat h + Suc k) mod ?N"
    unfolding uh' by (simp add: mod_add_left_eq)
  have m: "map (\<lambda>k. io_events r ! ((unat h + k) mod ?N)) [0..<Suc n] =
        io_events r ! unat h # map (\<lambda>k. io_events r ! ((unat ?h' + k) mod ?N)) [0..<n]"
    unfolding idx using hN by (simp add: upt_rec[of 0] map_Suc_upt[symmetric] del: upt_Suc)
  have f: "(unat ?h' + n) mod ?N = (unat h + Suc n) mod ?N"
    using idx[of n] .
  show ?case
    using Suc.IH[OF lt] hN nz assms(1) unfolding m f by simp
qed

lemma copy_events_nomod:
  assumes "length (io_events r) = unat (nr r)" "unat h + n < unat (nr r)"
  shows "copy_events r False n h =
     Inr (map (\<lambda>k. io_events r ! ((unat h + k) mod unat (nr r))) [0..<n],
          word_of_nat ((unat h + n) mod unat (nr r)))"
  using assms(2)
proof (induction n arbitrary: h)
  case 0
  then show ?case by simp
next
  case (Suc n)
  let ?N = "unat (nr r)"
  from Suc.prems have hN: "unat h < ?N" by simp
  then have "h < nr r" by (simp only: word_less_nat_alt)
  then have u1: "unat (h + 1) = unat h + 1" by (rule unat_succ_below)
  have p: "unat (h + 1) + n < ?N" using Suc.prems u1 by simp
  have idx: "\<And>k. (unat (h + 1) + k) mod ?N = (unat h + Suc k) mod ?N"
    unfolding u1 by simp
  have m: "map (\<lambda>k. io_events r ! ((unat h + k) mod ?N)) [0..<Suc n] =
        io_events r ! unat h # map (\<lambda>k. io_events r ! ((unat (h + 1) + k) mod ?N)) [0..<n]"
    unfolding idx using hN by (simp add: upt_rec[of 0] map_Suc_upt[symmetric] del: upt_Suc)
  have f: "(unat (h + 1) + n) mod ?N = (unat h + Suc n) mod ?N"
    using idx[of n] .
  show ?case
    using Suc.IH[OF p] hN assms(1) unfolding m f by simp
qed

lemma ring_wrapped_ok: "ring_ok ring_wrapped"
  by (simp add: ring_ok_def ring_wrapped_def has_usable_ring_def AIO_RING_MAGIC_def
      AIO_RING_INCOMPAT_FEATURES_def)

lemma ring_empty_ok: "ring_ok ring_empty"
  by (simp add: ring_ok_def ring_empty_def has_usable_ring_def AIO_RING_MAGIC_def
      AIO_RING_INCOMPAT_FEATURES_def)

section \<open>The threshold of the reader\<close>

text \<open>
  Claim C1, as amended.  On a ring that is usable and whose indices are in range, the local
  \<^verbatim>\<open>available\<close> is \<open>(tail - head) mod nr\<close>.  When it is zero and the caller asked for a
  minimum of at most zero or passed a zero timeout, the function returns zero completions
  and leaves the ring alone.  When it is below the minimum asked for (zero included) and no
  zero timeout was passed, the function does not touch the ring and returns what the system
  call \<^verbatim>\<open>io_getevents\<close> returns.
\<close>

theorem getevents_threshold:
  assumes ok: "ring_ok ring"
  shows "sint (available ring) = (uint (tail ring) - uint (head ring)) mod uint (nr ring) \<and>
    (available ring = 0 \<and> (sint min_nr \<le> 0 \<or> zero_timeout timeout) \<longrightarrow>
       artemis_io_getevents sys ring min_nr max_nr timeout = UserSpace 0 [] ring) \<and>
    (sint (available ring) < sint min_nr \<and> \<not> zero_timeout timeout \<longrightarrow>
       artemis_io_getevents sys ring min_nr max_nr timeout =
         SysCall (fst (sys min_nr max_nr timeout)) (snd (sys min_nr max_nr timeout)))"
proof (intro conjI impI)
  show "sint (available ring) = (uint (tail ring) - uint (head ring)) mod uint (nr ring)"
    using ok by (rule available_sint)
next
  assume a: "available ring = 0 \<and> (sint min_nr \<le> 0 \<or> zero_timeout timeout)"
  have "has_usable_ring ring" using ok by (simp add: ring_ok_def)
  then show "artemis_io_getevents sys ring min_nr max_nr timeout = UserSpace 0 [] ring"
    using a by (auto simp add: artemis_io_getevents_def)
next
  assume a: "sint (available ring) < sint min_nr \<and> \<not> zero_timeout timeout"
  then show "artemis_io_getevents sys ring min_nr max_nr timeout =
         SysCall (fst (sys min_nr max_nr timeout)) (snd (sys min_nr max_nr timeout))"
    by (simp add: artemis_io_getevents_def split: prod.split)
qed

text \<open>
  The theorem at the empty ring with a minimum of zero, and at the wrapped ring, which holds
  two completions, with a minimum of three.
\<close>

theorem getevents_threshold_witness:
  "ring_ok ring_empty \<and> available ring_empty = 0 \<and> sint (0 :: 64 word) \<le> 0 \<and>
   artemis_io_getevents syscall_one ring_empty 0 4 None = UserSpace 0 [] ring_empty \<and>
   ring_ok ring_wrapped \<and> sint (available ring_wrapped) = 2 \<and>
   sint (available ring_wrapped) < sint (3 :: 64 word) \<and> \<not> zero_timeout None \<and>
   artemis_io_getevents syscall_one ring_wrapped 3 4 None = SysCall 1 [ev 12]"
proof -
  have e: "available ring_empty = 0" by (simp add: available_def ring_empty_def)
  have w: "sint (available ring_wrapped) = 2" by (simp add: available_def ring_wrapped_def)
  have z: "\<not> zero_timeout None" by (simp add: zero_timeout_def)
  have s: "syscall_one 3 4 None = (1, [ev 12])" by (simp add: syscall_one_def)
  show ?thesis
    using getevents_threshold[OF ring_empty_ok, of 0 None syscall_one 4]
      getevents_threshold[OF ring_wrapped_ok, of 3 None syscall_one 4]
      ring_empty_ok ring_wrapped_ok e w z s
    by simp
qed

text \<open>
  Claim C1 as written fails: with nothing available, a minimum of one and no timeout (the
  call made by \<^verbatim>\<open>blockedPoll\<close>), the function enters the system call and returns the
  completion the system call waited for, not zero completions.
\<close>

theorem getevents_empty_ring_waits:
  "ring_ok ring_empty \<and> available ring_empty = 0 \<and>
   returned (artemis_io_getevents syscall_one ring_empty 1 4 None) = Inr (1, [ev 12])"
  by (simp add: ring_empty_ok)
    (simp add: artemis_io_getevents_def available_def ring_empty_def has_usable_ring_def
      AIO_RING_MAGIC_def AIO_RING_INCOMPAT_FEATURES_def zero_timeout_def syscall_one_def)

lemma available_nr_value:
  assumes ok: "ring_ok ring" and m: "0 \<le> sint (max_nr :: 64 word)"
  defines "a \<equiv> (if sint (available ring) < sint max_nr then available ring else ucast max_nr)"
  shows "sint a = min (sint (available ring)) (sint max_nr)"
    and "unat a = nat (min (sint (available ring)) (sint max_nr))"
proof -
  note r = available_range[OF ok]
  have A: "0 \<le> sint (available ring)" "sint (available ring) < 2 ^ 31"
    unfolding available_sint[OF ok] using r by simp_all
  show "sint a = min (sint (available ring)) (sint max_nr)"
  proof (cases "sint (available ring) < sint max_nr")
    case True
    then show ?thesis by (simp add: a_def)
  next
    case False
    then have le: "sint max_nr < 2 ^ 31" using A by linarith
    have "ucast max_nr = (word_of_int (sint max_nr) :: 32 word)"
      by (simp add: ucast_eq uint_of_sint_nonneg[OF m])
    then have "sint (ucast max_nr :: 32 word) = sint max_nr"
      using sint_small[of "sint max_nr"] m le by simp
    then show ?thesis using False by (simp add: a_def)
  qed
  show "unat a = nat (min (sint (available ring)) (sint max_nr))"
  proof (cases "sint (available ring) < sint max_nr")
    case True
    then show ?thesis using available_unat[OF ok] by (simp add: a_def)
  next
    case False
    then have le: "sint max_nr < 2 ^ 31" using A by linarith
    have "ucast max_nr = (word_of_int (sint max_nr) :: 32 word)"
      by (simp add: ucast_eq uint_of_sint_nonneg[OF m])
    then have "unat (ucast max_nr :: 32 word) = nat (sint max_nr)"
      using unat_word_of_int_small[OF m le] by simp
    then show ?thesis using False by (simp add: a_def)
  qed
qed

lemma needMod_nat:
  assumes ok: "ring_ok ring" and n: "unat (a :: 32 word) < 2 ^ 31"
  shows "nr ring \<le> head ring + a \<longleftrightarrow> unat (nr ring) \<le> unat (head ring) + unat a"
proof -
  from ok have "head ring < nr ring" "unat (nr ring) < 2 ^ 31" by (simp_all add: ring_ok_def)
  then have "unat (head ring) < 2 ^ 31" by (simp add: word_less_nat_alt)
  then have "unat (head ring) + unat a < 2 ^ 32" using n by simp
  then have "unat (head ring + a) = unat (head ring) + unat a" by (rule unat_add_small)
  then show ?thesis by (simp add: word_le_nat_alt)
qed

section \<open>Draining the ring\<close>

text \<open>
  Claim C2, as amended.  On a ring that is usable, with \<open>head\<close> and \<open>tail\<close> below the capacity,
  the capacity below \<open>2 ^ 31\<close> and one entry per slot, a call that passes the threshold with
  something available and a maximum that is not negative returns
  \<open>min available max\<close>, hands out exactly that many events, namely the ring entries at
  \<open>head\<close>, \<open>head + 1\<close>, ... taken modulo the capacity, and publishes the old head advanced
  by that number modulo the capacity.  The loop that skips the remainder when
  \<open>head + count\<close> stays below the capacity computes what the loop that takes the remainder
  at every step computes.
\<close>

theorem getevents_drain:
  assumes ok: "ring_ok ring"
    and av: "available ring \<noteq> 0"
    and taken: "sint min_nr \<le> sint (available ring) \<or> zero_timeout timeout"
    and m: "0 \<le> sint max_nr"
  defines "n \<equiv> nat (min (sint (available ring)) (sint max_nr))"
  shows "artemis_io_getevents sys ring min_nr max_nr timeout =
       UserSpace (int n)
         (map (\<lambda>k. io_events ring ! ((unat (head ring) + k) mod unat (nr ring))) [0..<n])
         (ring\<lparr>head := word_of_nat ((unat (head ring) + n) mod unat (nr ring))\<rparr>) \<and>
     copy_events ring (unat (nr ring) \<le> unat (head ring) + n) n (head ring) =
       copy_events ring True n (head ring)"
proof -
  let ?a = "if sint (available ring) < sint max_nr then available ring else ucast max_nr"
  let ?spec = "Inr (map (\<lambda>k. io_events ring ! ((unat (head ring) + k) mod unat (nr ring))) [0..<n],
          word_of_nat ((unat (head ring) + n) mod unat (nr ring)))"
  note r = available_range[OF ok]
  have A: "0 \<le> sint (available ring)" "sint (available ring) < 2 ^ 31"
    unfolding available_sint[OF ok] using r by simp_all
  have sa: "sint ?a = int n" 
    using available_nr_value(1)[OF ok m] A m by (simp add: n_def)
  have ua: "unat ?a = n" using available_nr_value(2)[OF ok m] by (simp add: n_def)
  have "n < 2 ^ 31" using A m by (simp add: n_def nat_less_iff min_def)
  then have nm: "nr ring \<le> head ring + ?a \<longleftrightarrow> unat (nr ring) \<le> unat (head ring) + n"
    using needMod_nat[OF ok, of ?a] ua by simp
  from ok have len: "length (io_events ring) = unat (nr ring)" and h: "head ring < nr ring"
    and u: "has_usable_ring ring"
    by (simp_all add: ring_ok_def)
  have c1: "copy_events ring True n (head ring) = ?spec"
    using len h by (rule copy_events_mod)
  have c2: "copy_events ring (unat (nr ring) \<le> unat (head ring) + n) n (head ring) = ?spec"
  proof (cases "unat (nr ring) \<le> unat (head ring) + n")
    case True
    then show ?thesis using c1 by simp
  next
    case False
    then have "unat (head ring) + n < unat (nr ring)" by simp
    then show ?thesis using copy_events_nomod[OF len] False by simp
  qed
  have "artemis_io_getevents sys ring min_nr max_nr timeout =
     (case copy_events ring (nr ring \<le> head ring + ?a) (nat (sint ?a)) (head ring) of
        Inl f \<Rightarrow> Undefined f
      | Inr (es, h') \<Rightarrow> UserSpace (sint ?a) es (ring\<lparr>head := h'\<rparr>))"
    using u av taken by (simp add: artemis_io_getevents_def Let_def)
  also have "\<dots> = UserSpace (int n)
         (map (\<lambda>k. io_events ring ! ((unat (head ring) + k) mod unat (nr ring))) [0..<n])
         (ring\<lparr>head := word_of_nat ((unat (head ring) + n) mod unat (nr ring))\<rparr>)"
    unfolding nm sa using c2 by simp
  finally show ?thesis using c1 c2 by simp
qed

text \<open>The theorem at the wrapped ring: the two completions at slots 3 and 0, new head 1.\<close>

theorem getevents_drain_witness:
  "ring_ok ring_wrapped \<and> available ring_wrapped \<noteq> 0 \<and>
   sint (1 :: 64 word) \<le> sint (available ring_wrapped) \<and> 0 \<le> sint (4 :: 64 word) \<and>
   artemis_io_getevents syscall_one ring_wrapped 1 4 None =
     UserSpace 2 [ev 13, ev 10] (ring_wrapped\<lparr>head := 1\<rparr>)"
proof -
  have a: "available ring_wrapped = 2" by (simp add: available_def ring_wrapped_def)
  have l: "[0..<2] = [0, Suc 0]" by (simp add: upt_rec)
  show ?thesis
    using getevents_drain[OF ring_wrapped_ok, of 1 None 4 syscall_one] ring_wrapped_ok
    unfolding a
    by (simp add: ring_wrapped_def l)
qed

lemma ucast_minus_one: "(ucast (- 1 :: 64 word) :: 32 word) = - 1"
  by code_simp

text \<open>
  Claim C2 as written fails for a negative maximum, which \<^verbatim>\<open>poll\<close> passes on from its caller
  unchecked: at the wrapped ring, with two completions available and a maximum of \<open>-1\<close>, the
  function returns \<open>-1\<close>, copies no entry and publishes the head it found, 3, not 3 advanced
  by \<open>min 2 (-1)\<close> modulo 4.
\<close>

theorem getevents_negative_max:
  "ring_ok ring_wrapped \<and> available ring_wrapped = 2 \<and> head ring_wrapped = 3 \<and>
   sint (1 :: 64 word) \<le> sint (available ring_wrapped) \<and>
   artemis_io_getevents syscall_one ring_wrapped 1 (- 1) None = UserSpace (- 1) [] ring_wrapped"
proof -
  have a: "available ring_wrapped = 2" by (simp add: available_def ring_wrapped_def)
  have h: "head ring_wrapped = 3" "nr ring_wrapped = 4" by (simp_all add: ring_wrapped_def)
  have u: "has_usable_ring ring_wrapped" using ring_wrapped_ok by (simp add: ring_ok_def)
  have r: "ring_wrapped\<lparr>head := 3\<rparr> = ring_wrapped" by (simp add: ring_wrapped_def)
  have "artemis_io_getevents syscall_one ring_wrapped 1 (- 1) None =
      UserSpace (- 1) [] (ring_wrapped\<lparr>head := 3\<rparr>)"
    using u by (simp add: artemis_io_getevents_def a h Let_def ucast_minus_one)
  then show ?thesis using ring_wrapped_ok a h r by simp
qed

section \<open>The counter of the pool\<close>

lemma getIOCB_full: "\<not> used c < queueSize c \<Longrightarrow> getIOCB c = Inr (NULL, c)"
  by (simp add: getIOCB_def)

lemma getIOCB_free:
  assumes "pool_ok c" "used c < queueSize c"
  shows "\<exists>c'. getIOCB c = Inr (iocb c ! nat (iocbGet c), c') \<and> pool_ok c' \<and>
           used c' = used c + 1 \<and> queueSize c' = queueSize c"
  using assms by (auto simp add: getIOCB_def pool_ok_def)

lemma putIOCB_ok:
  assumes "pool_ok c"
  shows "\<exists>c'. putIOCB c p = Inr c' \<and> pool_ok c' \<and> used c' = used c - 1 \<and>
           queueSize c' = queueSize c \<and> iocb c' ! nat (iocbPut c) = p \<and> thisObject c' = thisObject c"
  using assms by (auto simp add: putIOCB_def pool_ok_def)

lemma run_ops_bounded:
  assumes "pool_ok c" "used c \<le> queueSize c"
  shows "\<exists>c'. run_ops c ops = Inr c' \<and> pool_ok c' \<and> used c' \<le> queueSize c' \<and>
           queueSize c' = queueSize c"
  using assms
proof (induction ops arbitrary: c)
  case Nil
  then show ?case by simp
next
  case (Cons op ops)
  show ?case
  proof (cases op)
    case Acquire
    show ?thesis
    proof (cases "used c < queueSize c")
      case True
      from getIOCB_free[OF Cons.prems(1) True] obtain c1 where
        g: "getIOCB c = Inr (iocb c ! nat (iocbGet c), c1)" and o: "pool_ok c1"
        and u: "used c1 = used c + 1" and q: "queueSize c1 = queueSize c" by blast
      have "used c1 \<le> queueSize c1" using True u q by simp
      from Cons.IH[OF o this] show ?thesis using Acquire g q by simp
    next
      case False
      from Cons.IH[OF Cons.prems] show ?thesis using Acquire getIOCB_full[OF False] by simp
    qed
  next
    case (Release p)
    from putIOCB_ok[OF Cons.prems(1), of p] obtain c1 where
      g: "putIOCB c p = Inr c1" and o: "pool_ok c1"
      and u: "used c1 = used c - 1" and q: "queueSize c1 = queueSize c" by blast
    have "used c1 \<le> queueSize c1" using Cons.prems(2) u q by simp
    from Cons.IH[OF o this] show ?thesis using Release g q by simp
  qed
qed

lemma run_ops_paired:
  assumes "pool_ok c" "used c = int (length held)" "paired c held ops" "run_ops c ops = Inr c'"
  shows "0 \<le> used c'"
  using assms
proof (induction ops arbitrary: c held)
  case Nil
  then show ?case by simp
next
  case (Cons op ops)
  show ?case
  proof (cases op)
    case Acquire
    show ?thesis
    proof (cases "used c < queueSize c")
      case True
      from getIOCB_free[OF Cons.prems(1) True] obtain c1 where
        g: "getIOCB c = Inr (iocb c ! nat (iocbGet c), c1)" and o: "pool_ok c1"
        and u: "used c1 = used c + 1" by blast
      have l: "used c1 = int (length (iocb c ! nat (iocbGet c) # held))"
        using u Cons.prems(2) by simp
      show ?thesis
        using Cons.IH[OF o l] Cons.prems(3,4) Acquire g True by simp
    next
      case False
      show ?thesis
        using Cons.IH[OF Cons.prems(1,2)] Cons.prems(3,4) Acquire getIOCB_full[OF False] False
        by simp
    qed
  next
    case (Release p)
    from putIOCB_ok[OF Cons.prems(1), of p] obtain c1 where
      g: "putIOCB c p = Inr c1" and o: "pool_ok c1" and u: "used c1 = used c - 1" by blast
    from Cons.prems(3) Release have m: "p \<in> set held" by simp
    then have "length (remove1 p held) = length held - 1" by (simp add: length_remove1)
    moreover have "0 < length held" using m by (cases held) auto
    ultimately have "int (length (remove1 p held)) = int (length held) - 1" by linarith
    then have l: "used c1 = int (length (remove1 p held))"
      using u Cons.prems(2) by simp
    show ?thesis
      using Cons.IH[OF o l] Cons.prems(3,4) Release g by simp
  qed
qed

lemma paired_take: "paired c held ops \<Longrightarrow> paired c held (take k ops)"
proof (induction ops arbitrary: c held k)
  case Nil
  then show ?case by simp
next
  case (Cons op ops)
  show ?case
  proof (cases k)
    case 0
    then show ?thesis by simp
  next
    case (Suc j)
    show ?thesis
    proof (cases op)
      case Acquire
      then show ?thesis using Cons.prems Cons.IH Suc
        by (auto split: sum.splits)
    next
      case (Release p)
      then show ?thesis using Cons.prems Cons.IH Suc
        by (auto split: sum.splits)
    qed
  qed
qed

text \<open>
  Claim C3, as amended.  From a pool whose indices are in range and whose \<^verbatim>\<open>used\<close> is at most
  \<^verbatim>\<open>queueSize\<close>, after every prefix of every sequence of acquires and releases: no operation
  faults, \<^verbatim>\<open>used\<close> is at most \<^verbatim>\<open>queueSize\<close>; \<^verbatim>\<open>used\<close> is not negative when the sequence is
  paired and \<^verbatim>\<open>used\<close> counted the descriptors held at the start; and when \<^verbatim>\<open>used\<close> equals
  \<^verbatim>\<open>queueSize\<close> an acquire returns the null pointer and leaves the pool as it is.
\<close>

theorem pool_used_bounds:
  assumes "pool_ok c" "used c \<le> queueSize c"
  shows "\<exists>c'. run_ops c (take k ops) = Inr c' \<and> queueSize c' = queueSize c \<and>
           used c' \<le> queueSize c \<and>
           (used c = int (length held) \<and> paired c held ops \<longrightarrow> 0 \<le> used c') \<and>
           (used c' = queueSize c \<longrightarrow> getIOCB c' = Inr (NULL, c'))"
proof -
  from run_ops_bounded[OF assms, of "take k ops"] obtain c' where
    r: "run_ops c (take k ops) = Inr c'" and q: "queueSize c' = queueSize c"
    and u: "used c' \<le> queueSize c'" by blast
  have "0 \<le> used c'" if "used c = int (length held)" "paired c held ops"
    using run_ops_paired[OF assms(1) that(1) paired_take[OF that(2)] r] .
  moreover have "getIOCB c' = Inr (NULL, c')" if "used c' = queueSize c"
    using that q by (intro getIOCB_full) simp
  ultimately show ?thesis using r q u by auto
qed

text \<open>
  Claim C8.  An acquire from a pool with a free descriptor returns it and adds one to
  \<^verbatim>\<open>used\<close>; one release of that descriptor brings \<^verbatim>\<open>used\<close> back to the value before the
  acquire.
\<close>

theorem acquire_release_restores:
  assumes "pool_ok c" "used c < queueSize c"
  shows "\<exists>p c1 c2. getIOCB c = Inr (p, c1) \<and> used c1 = used c + 1 \<and>
           putIOCB c1 p = Inr c2 \<and> used c2 = used c"
proof -
  from getIOCB_free[OF assms] obtain c1 where
    g: "getIOCB c = Inr (iocb c ! nat (iocbGet c), c1)" and o: "pool_ok c1"
    and u: "used c1 = used c + 1" by blast
  from putIOCB_ok[OF o, of "iocb c ! nat (iocbGet c)"] obtain c2 where
    "putIOCB c1 (iocb c ! nat (iocbGet c)) = Inr c2" "used c2 = used c1 - 1" by blast
  then show ?thesis using g u by auto
qed


lemma pool_two_ok: "pool_ok pool_two"
  by (simp add: pool_two_def newContext_pool_def pool_ok_def)

text \<open>
  The theorem at the pool of two descriptors: after two of three acquires the pool is full,
  and the third acquire of the sequence is refused.
\<close>

theorem pool_used_bounds_witness:
  "pool_ok pool_two \<and> used pool_two \<le> queueSize pool_two \<and>
   used pool_two = int (length ([] :: ptr list)) \<and>
   paired pool_two [] [Acquire, Acquire, Acquire, Release 0x1000] \<and>
   (\<exists>c'. run_ops pool_two (take 2 [Acquire, Acquire, Acquire, Release 0x1000]) = Inr c' \<and>
      used c' = queueSize pool_two \<and> 0 \<le> used c' \<and> getIOCB c' = Inr (NULL, c'))"
proof -
  have u: "used pool_two \<le> queueSize pool_two" "used pool_two = int (length ([] :: ptr list))"
    by (simp_all add: pool_two_def newContext_pool_def)
  have p: "paired pool_two [] [Acquire, Acquire, Acquire, Release 0x1000]"
    by (simp add: pool_two_def newContext_pool_def getIOCB_def putIOCB_def)
  have r: "run_ops pool_two (take 2 [Acquire, Acquire, Acquire, Release 0x1000]) =
      Inr (pool_two\<lparr>used := 2\<rparr>)"
    by (simp add: pool_two_def newContext_pool_def getIOCB_def)
  have q: "used (pool_two\<lparr>used := 2\<rparr>) = queueSize pool_two"
    by (simp add: pool_two_def newContext_pool_def)
  show ?thesis
    using pool_used_bounds[OF pool_two_ok u(1), of 2
        "[Acquire, Acquire, Acquire, Release 0x1000]" "[]"] pool_two_ok u p q
    unfolding r by auto
qed

text \<open>The theorem at the fresh pool of two descriptors.\<close>

theorem acquire_release_restores_witness:
  "pool_ok pool_two \<and> used pool_two < queueSize pool_two \<and>
   (\<exists>p c1 c2. getIOCB pool_two = Inr (p, c1) \<and> used c1 = used pool_two + 1 \<and>
      putIOCB c1 p = Inr c2 \<and> used c2 = used pool_two)"
proof -
  have u: "used pool_two < queueSize pool_two"
    by (simp add: pool_two_def newContext_pool_def)
  show ?thesis
    using acquire_release_restores[OF pool_two_ok u] pool_two_ok u by simp
qed

text \<open>
  Claim C3 as written fails: \<^verbatim>\<open>putIOCB\<close> decrements without a test, so a release on the
  fresh pool, which no acquire precedes, leaves \<^verbatim>\<open>used\<close> at \<open>-1\<close>.
\<close>

theorem release_unheld_goes_negative:
  "pool_ok pool_two \<and> used pool_two = 0 \<and>
   run_ops pool_two [Release 0x1000] =
     Inr (pool_two\<lparr>used := - 1, iocb := [0x1000, 0x1000], iocbPut := 1\<rparr>)"
  by (simp add: pool_two_ok) (simp add: pool_two_def newContext_pool_def putIOCB_def)

section \<open>A rejected submission\<close>

lemma getIOCB_keeps:
  "getIOCB c = Inr (p, c') \<Longrightarrow> iocbPut c' = iocbPut c \<and> thisObject c' = thisObject c"
  by (auto simp add: getIOCB_def split: if_splits)

lemma exceptionMessage_pos:
  "0 \<le> n \<Longrightarrow> exceptionMessage strerror msg n = msg @ strerror n"
  by (simp add: exceptionMessage_def)

text \<open>
  Claim C4.  When \<^verbatim>\<open>io_submit\<close> returns a negative result for a descriptor that was just
  acquired, \<^verbatim>\<open>submit\<close> returns 0 and leaves: \<^verbatim>\<open>used\<close> at its value before the acquire, the
  descriptor in the slot of the pool at \<^verbatim>\<open>iocbPut\<close>, the global reference stored in the
  user-data slot deleted when the slot holds neither null nor the marker \<open>-1\<close>, an
  \<^verbatim>\<open>IOException\<close> pending whose message is the text of the kernel's error number, and no
  call on any handle.
\<close>

theorem submit_rejected:
  assumes c0: "pool_ok c0" "used c0 < queueSize c0"
    and acquired: "getIOCB c0 = Inr (p, control st)"
    and rejected: "result < 0"
  shows "\<exists>st'. submit strerror result st p = Inr (st', 0) \<and>
           used (control st') = used c0 \<and>
           iocb (control st') ! nat (iocbPut c0) = p \<and>
           globalRefs st' =
             (if data (iocbs st p) \<noteq> NULL \<and> data (iocbs st p) \<noteq> MINUS_ONE
              then remove1 (data (iocbs st p)) (globalRefs st) else globalRefs st) \<and>
           pending st' = Some (IOException (''Error while submitting IO: '' @ strerror (- result))) \<and>
           calls st' = calls st"
proof -
  from getIOCB_free[OF c0] acquired have o: "pool_ok (control st)"
    and u: "used (control st) = used c0 + 1" by auto
  from getIOCB_keeps[OF acquired] have k: "iocbPut (control st) = iocbPut c0" by simp
  let ?st1 = "if data (iocbs st p) \<noteq> NULL \<and> data (iocbs st p) \<noteq> MINUS_ONE
              then DeleteGlobalRef st (data (iocbs st p)) else st"
  have c1: "control ?st1 = control st" by (simp add: DeleteGlobalRef_def)
  from putIOCB_ok[OF o, of p] obtain c where
    pc: "putIOCB (control st) p = Inr c" and uc: "used c = used (control st) - 1"
    and ic: "iocb c ! nat (iocbPut (control st)) = p" by blast
  have m: "exceptionMessage strerror ''Error while submitting IO: '' (- result) =
      ''Error while submitting IO: '' @ strerror (- result)"
    using rejected by (intro exceptionMessage_pos) simp
  have "submit strerror result st p =
      Inr (throwIOExceptionErrorNo strerror (?st1\<lparr>control := c\<rparr>)
             ''Error while submitting IO: '' (- result), 0)"
    using rejected pc c1 by (simp add: submit_def Let_def)
  then show ?thesis
    using uc u ic k m by (simp add: throwIOExceptionErrorNo_def DeleteGlobalRef_def)
qed

text \<open>
  The theorem at the fresh pool of two descriptors, the first one filled with the handle
  \<open>0x500\<close>, and \<^verbatim>\<open>io_submit\<close> returning \<open>-11\<close>.
\<close>

theorem submit_rejected_witness:
  "pool_ok pool_two \<and> used pool_two < queueSize pool_two \<and>
   getIOCB pool_two = Inr (0x2000, control st_filled) \<and> (- 11 :: int) < 0 \<and>
   data (iocbs st_filled 0x2000) = 0x500 \<and> globalRefs st_filled = [0x500] \<and>
   (\<exists>st'. submit strerror_text (- 11) st_filled 0x2000 = Inr (st', 0) \<and>
      used (control st') = 0 \<and> iocb (control st') ! 0 = 0x2000 \<and> globalRefs st' = [] \<and>
      pending st' =
        Some (IOException ''Error while submitting IO: Resource temporarily unavailable'') \<and>
      calls st' = [])"
proof -
  have u: "used pool_two < queueSize pool_two" "used pool_two = 0" "iocbPut pool_two = 0"
    by (simp_all add: pool_two_def newContext_pool_def)
  have g: "getIOCB pool_two = Inr (0x2000, control st_filled)"
    by (simp add: pool_two_def newContext_pool_def getIOCB_def st_filled_def)
  have d: "data (iocbs st_filled 0x2000) = 0x500" "globalRefs st_filled = [0x500]"
    "calls st_filled = []"
    by (simp_all add: st_filled_def iocbs_two_def)
  have n: "(0x500 :: ptr) \<noteq> NULL" "(0x500 :: ptr) \<noteq> MINUS_ONE"
    by (simp_all add: NULL_def MINUS_ONE_def)
  have t: "strerror_text 11 = ''Resource temporarily unavailable''"
    by (simp add: strerror_text_def)
  show ?thesis
    using submit_rejected[OF pool_two_ok u(1) g, of "- 11" strerror_text] pool_two_ok u g d n t
    by simp
qed

section \<open>The loops over a batch of completions\<close>

lemma blockedPoll_events_dumb:
  assumes "is_dumb st e" "pool_ok (control st)"
  shows "\<exists>c. putIOCB (control st) (obj e) = Inr c \<and> pool_ok c \<and>
           used c = used (control st) - 1 \<and> iocb c ! nat (iocbPut (control st)) = obj e \<and>
           blockedPoll_events se fd st lf (e # es) = Inr (st\<lparr>control := c\<rparr>, False)"
proof -
  from putIOCB_ok[OF assms(2), of "obj e"] obtain c where
    "putIOCB (control st) (obj e) = Inr c" "pool_ok c" "used c = used (control st) - 1"
    "iocb c ! nat (iocbPut (control st)) = obj e" by blast
  then show ?thesis using assms(1) by (simp add: is_dumb_def)
qed

lemma blockedPoll_events_step:
  assumes "\<not> is_dumb st e" "pool_ok (control st)"
  shows "\<exists>st' lf'.
           (\<forall>es. blockedPoll_events se fd st lf (e # es) = blockedPoll_events se fd st' lf' es) \<and>
           pool_ok (control st') \<and> iocbs st' = iocbs st \<and>
           dumbWriteHandler st' = dumbWriteHandler st \<and>
           thisObject (control st') = thisObject (control st) \<and>
           pending st' = pending st \<and>
           calls st' = calls st @ delivered se st e \<and>
           used (control st') = used (control st) - 1"
proof -
  let ?d = "iocbs st (obj e)"
  let ?sync = "fd \<and> lf \<noteq> aio_fildes ?d"
  let ?st1 = "if ?sync then fdatasync st (aio_fildes ?d) else st"
  let ?st2 = "if eventResult e < 0 \<and> data ?d \<noteq> NULL
              then CallVoidMethod ?st1
                     (OnError (data ?d) (- eventResult e) (se (- eventResult e)))
              else ?st1"
  have c2: "control ?st2 = control st"
    by (simp add: fdatasync_def CallVoidMethod_def)
  from putIOCB_ok[OF assms(2), of "obj e"] obtain c where
    pc: "putIOCB (control st) (obj e) = Inr c" and oc: "pool_ok c"
    and uc: "used c = used (control st) - 1" and tc: "thisObject c = thisObject (control st)"
    by blast
  let ?st4 = "if data ?d \<noteq> NULL
              then DeleteGlobalRef
                     (CallVoidMethod (?st2\<lparr>control := c\<rparr>) (ContextDone (thisObject c) (data ?d)))
                     (data ?d)
              else ?st2\<lparr>control := c\<rparr>"
  have e: "blockedPoll_events se fd st lf (e # es) =
      blockedPoll_events se fd ?st4 (if ?sync then aio_fildes ?d else lf) es" for es
    using assms(1) pc c2 by (simp add: is_dumb_def Let_def)
  have p: "control ?st4 = c" "iocbs ?st4 = iocbs st" "dumbWriteHandler ?st4 = dumbWriteHandler st"
    "pending ?st4 = pending st"
    by (simp_all add: fdatasync_def CallVoidMethod_def DeleteGlobalRef_def)
  have k: "calls ?st4 = calls st @ delivered se st e"
    by (simp add: fdatasync_def CallVoidMethod_def DeleteGlobalRef_def delivered_def tc)
  show ?thesis
    using e p k oc uc tc by (intro exI[of _ ?st4] exI[of _ "if ?sync then aio_fildes ?d else lf"]) simp
qed

lemma same_view:
  assumes "iocbs st' = iocbs st" "dumbWriteHandler st' = dumbWriteHandler st"
    "thisObject (control st') = thisObject (control st)"
  shows "before_dumb st' es = before_dumb st es" "delivered se st' = delivered se st"
  using assms by (simp_all add: before_dumb_def is_dumb_def delivered_def fun_eq_iff)

lemma blockedPoll_events_summary:
  assumes "pool_ok (control st)"
  shows "\<exists>st'. blockedPoll_events se fd st lf es = Inr (st', before_dumb st es = es) \<and>
           pool_ok (control st') \<and> iocbs st' = iocbs st \<and>
           dumbWriteHandler st' = dumbWriteHandler st \<and>
           thisObject (control st') = thisObject (control st) \<and>
           pending st' = pending st \<and>
           calls st' = calls st @ concat (map (delivered se st) (before_dumb st es)) \<and>
           used (control st') =
             used (control st) - int (length (before_dumb st es)) -
               (if before_dumb st es = es then 0 else 1)"
  using assms
proof (induction es arbitrary: st lf)
  case Nil
  then show ?case by (simp add: before_dumb_def)
next
  case (Cons e es)
  show ?case
  proof (cases "is_dumb st e")
    case True
    from blockedPoll_events_dumb[OF True Cons.prems, of se fd lf es] obtain c where
      "pool_ok c" "used c = used (control st) - 1"
      "blockedPoll_events se fd st lf (e # es) = Inr (st\<lparr>control := c\<rparr>, False)"
      "putIOCB (control st) (obj e) = Inr c" by blast
    moreover from this(4) have "thisObject c = thisObject (control st)"
      using putIOCB_ok[OF Cons.prems, of "obj e"] by auto
    ultimately show ?thesis using True
      by (intro exI[of _ "st\<lparr>control := c\<rparr>"]) (simp add: before_dumb_def)
  next
    case False
    from blockedPoll_events_step[OF False Cons.prems, of se fd lf] obtain st1 lf1 where
      s: "blockedPoll_events se fd st lf (e # es) = blockedPoll_events se fd st1 lf1 es"
      and o: "pool_ok (control st1)" and i: "iocbs st1 = iocbs st"
      and d: "dumbWriteHandler st1 = dumbWriteHandler st"
      and t: "thisObject (control st1) = thisObject (control st)"
      and p: "pending st1 = pending st"
      and k: "calls st1 = calls st @ delivered se st e"
      and u: "used (control st1) = used (control st) - 1" by blast
    note v = same_view[OF i d t]
    from Cons.IH[OF o, of lf1] obtain st' where
      r: "blockedPoll_events se fd st1 lf1 es = Inr (st', before_dumb st1 es = es)"
      and r': "pool_ok (control st')" "iocbs st' = iocbs st1"
        "dumbWriteHandler st' = dumbWriteHandler st1"
        "thisObject (control st') = thisObject (control st1)"
        "pending st' = pending st1"
        "calls st' = calls st1 @ concat (map (delivered se st1) (before_dumb st1 es))"
        "used (control st') = used (control st1) - int (length (before_dumb st1 es)) -
               (if before_dumb st1 es = es then 0 else 1)" by blast
    have b: "before_dumb st (e # es) = e # before_dumb st es"
      using False by (simp add: before_dumb_def)
    show ?thesis
      using s r r' i d t p k u False unfolding v b
      by (intro exI[of _ st']) simp
  qed
qed

lemma blockedPoll_events_append:
  assumes "pool_ok (control st)" "\<forall>x \<in> set pre. \<not> is_dumb st x"
  shows "\<exists>st1 lf1.
           (\<forall>rest. blockedPoll_events se fd st lf (pre @ rest) =
                    blockedPoll_events se fd st1 lf1 rest) \<and>
           pool_ok (control st1) \<and> iocbs st1 = iocbs st \<and>
           dumbWriteHandler st1 = dumbWriteHandler st \<and>
           thisObject (control st1) = thisObject (control st) \<and>
           calls st1 = calls st @ concat (map (delivered se st) pre) \<and>
           used (control st1) = used (control st) - int (length pre)"
  using assms
proof (induction pre arbitrary: st lf)
  case Nil
  then show ?case by (intro exI[of _ st] exI[of _ lf]) simp
next
  case (Cons e pre)
  from Cons.prems(2) have nd: "\<not> is_dumb st e" by simp
  from blockedPoll_events_step[OF nd Cons.prems(1), of se fd lf] obtain st1 lf1 where
    s: "\<forall>es. blockedPoll_events se fd st lf (e # es) = blockedPoll_events se fd st1 lf1 es"
    and o: "pool_ok (control st1)" and i: "iocbs st1 = iocbs st"
    and d: "dumbWriteHandler st1 = dumbWriteHandler st"
    and t: "thisObject (control st1) = thisObject (control st)"
    and k: "calls st1 = calls st @ delivered se st e"
    and u: "used (control st1) = used (control st) - 1" by blast
  have nd1: "\<forall>x \<in> set pre. \<not> is_dumb st1 x"
    using Cons.prems(2) i d by (simp add: is_dumb_def)
  from Cons.IH[OF o nd1, of lf1] obtain st2 lf2 where
    r: "\<forall>rest. blockedPoll_events se fd st1 lf1 (pre @ rest) =
                blockedPoll_events se fd st2 lf2 rest"
    and r': "pool_ok (control st2)" "iocbs st2 = iocbs st1"
      "dumbWriteHandler st2 = dumbWriteHandler st1"
      "thisObject (control st2) = thisObject (control st1)"
      "calls st2 = calls st1 @ concat (map (delivered se st1) pre)"
      "used (control st2) = used (control st1) - int (length pre)" by blast
  show ?case
    using s r r' i d t k u unfolding same_view(2)[OF i d t]
    by (intro exI[of _ st2] exI[of _ lf2]) simp
qed

lemma poll_events_step:
  assumes "pool_ok (control st)"
  shows "\<exists>st'. poll_events se st cbs i (e # es) =
             poll_events se st'
               (if has_handle st e then cbs[i := data (iocbs st (obj e))] else cbs) (Suc i) es \<and>
           pool_ok (control st') \<and> iocbs st' = iocbs st \<and>
           calls st' = calls st @ poll_calls se st e \<and>
           used (control st') = used (control st) - 1"
proof -
  let ?d = "iocbs st (obj e)"
  let ?h = "data ?d \<noteq> NULL \<and> data ?d \<noteq> MINUS_ONE"
  let ?st1 = "if eventResult e < 0 \<and> ?h
              then CallVoidMethod st (OnError (data ?d) (- eventResult e) (se (- eventResult e)))
              else st"
  let ?pair = "if ?h
               then (case SetObjectArrayElement ?st1 cbs i (data ?d) of
                       (callbacks', st2) \<Rightarrow> (callbacks', DeleteGlobalRef st2 (data ?d)))
               else (cbs, ?st1)"
  have f: "fst ?pair = (if has_handle st e then cbs[i := data ?d] else cbs)"
    by (simp add: SetObjectArrayElement_def has_handle_def list_update_beyond)
  have c3: "control (snd ?pair) = control st" "iocbs (snd ?pair) = iocbs st"
    "calls (snd ?pair) = calls st @ poll_calls se st e"
    by (simp_all add: SetObjectArrayElement_def DeleteGlobalRef_def CallVoidMethod_def
        poll_calls_def has_handle_def)
  from putIOCB_ok[OF assms, of "obj e"] obtain c where
    pc: "putIOCB (control st) (obj e) = Inr c" and oc: "pool_ok c"
    and uc: "used c = used (control st) - 1" by blast
  have "poll_events se st cbs i (e # es) =
      (case putIOCB (control (snd ?pair)) (obj e) of
         Inl f \<Rightarrow> Inl f
       | Inr c \<Rightarrow> poll_events se ((snd ?pair)\<lparr>control := c\<rparr>) (fst ?pair) (Suc i) es)"
    by (simp add: Let_def case_prod_beta)
  then have "poll_events se st cbs i (e # es) =
      poll_events se ((snd ?pair)\<lparr>control := c\<rparr>)
        (if has_handle st e then cbs[i := data ?d] else cbs) (Suc i) es"
    unfolding c3 f using pc by simp
  then show ?thesis using c3 oc uc
    by (intro exI[of _ "(snd ?pair)\<lparr>control := c\<rparr>"]) simp
qed

lemma same_handles:
  assumes "iocbs st' = iocbs st"
  shows "has_handle st' = has_handle st" "poll_calls se st' = poll_calls se st"
  using assms by (simp_all add: has_handle_def poll_calls_def fun_eq_iff)

lemma poll_events_summary:
  assumes "pool_ok (control st)"
  shows "\<exists>st' cbs'. poll_events se st cbs i es = Inr (st', cbs') \<and>
           pool_ok (control st') \<and> iocbs st' = iocbs st \<and>
           calls st' = calls st @ concat (map (poll_calls se st) es) \<and>
           used (control st') = used (control st) - int (length es) \<and>
           length cbs' = length cbs \<and>
           (\<forall>j < length cbs. cbs' ! j =
              (if i \<le> j \<and> j - i < length es \<and> has_handle st (es ! (j - i))
               then data (iocbs st (obj (es ! (j - i)))) else cbs ! j))"
  using assms
proof (induction es arbitrary: st cbs i)
  case Nil
  then show ?case by simp
next
  case (Cons e es)
  let ?cbs1 = "if has_handle st e then cbs[i := data (iocbs st (obj e))] else cbs"
  from poll_events_step[OF Cons.prems, of se cbs i e es] obtain st1 where
    s: "poll_events se st cbs i (e # es) = poll_events se st1 ?cbs1 (Suc i) es"
    and o: "pool_ok (control st1)" and m: "iocbs st1 = iocbs st"
    and k: "calls st1 = calls st @ poll_calls se st e"
    and u: "used (control st1) = used (control st) - 1" by blast
  note v = same_handles[OF m]
  from Cons.IH[OF o, of ?cbs1 "Suc i"] obtain st' cbs' where
    r: "poll_events se st1 ?cbs1 (Suc i) es = Inr (st', cbs')"
    and r': "pool_ok (control st')" "iocbs st' = iocbs st1"
      "calls st' = calls st1 @ concat (map (poll_calls se st1) es)"
      "used (control st') = used (control st1) - int (length es)"
      "length cbs' = length ?cbs1"
    and a: "\<forall>j < length ?cbs1. cbs' ! j =
              (if Suc i \<le> j \<and> j - Suc i < length es \<and> has_handle st1 (es ! (j - Suc i))
               then data (iocbs st1 (obj (es ! (j - Suc i)))) else ?cbs1 ! j)"
    by blast
  have l: "length ?cbs1 = length cbs" by simp
  have "cbs' ! j =
      (if i \<le> j \<and> j - i < length (e # es) \<and> has_handle st ((e # es) ! (j - i))
       then data (iocbs st (obj ((e # es) ! (j - i)))) else cbs ! j)"
    if j: "j < length cbs" for j
  proof -
    from a j l have c: "cbs' ! j =
              (if Suc i \<le> j \<and> j - Suc i < length es \<and> has_handle st (es ! (j - Suc i))
               then data (iocbs st (obj (es ! (j - Suc i)))) else ?cbs1 ! j)"
      unfolding v m by simp
    consider "j < i" | "j = i" | "Suc i \<le> j" by linarith
    then show ?thesis
    proof cases
      case 1
      then show ?thesis using c by simp
    next
      case 2
      then show ?thesis using c j by simp
    next
      case 3
      then have "j - i = Suc (j - Suc i)" by simp
      then show ?thesis using c 3 by simp
    qed
  qed
  then show ?case
    using s r r' m k u l unfolding v
    by (intro exI[of _ st'] exI[of _ cbs']) simp
qed

lemma poll_events_from_zero:
  assumes "pool_ok (control st)"
  shows "\<exists>st'. poll_events se st cbs 0 es = Inr (st', callbacks_after st cbs es) \<and>
           pool_ok (control st') \<and> iocbs st' = iocbs st \<and>
           calls st' = calls st @ concat (map (poll_calls se st) es) \<and>
           used (control st') = used (control st) - int (length es)"
proof -
  from poll_events_summary[OF assms, of se cbs 0 es] obtain st' cbs' where
    r: "poll_events se st cbs 0 es = Inr (st', cbs')"
    and r': "pool_ok (control st')" "iocbs st' = iocbs st"
      "calls st' = calls st @ concat (map (poll_calls se st) es)"
      "used (control st') = used (control st) - int (length es)"
    and l: "length cbs' = length cbs"
    and a: "\<forall>j < length cbs. cbs' ! j =
              (if 0 \<le> j \<and> j - 0 < length es \<and> has_handle st (es ! (j - 0))
               then data (iocbs st (obj (es ! (j - 0)))) else cbs ! j)"
    by blast
  have "cbs' = callbacks_after st cbs es"
    using l a by (intro nth_equalityI) (simp_all add: callbacks_after_def)
  then show ?thesis using r r' by simp
qed

section \<open>The dumb write stops the continuous poll\<close>

lemma blockedPoll_loop_retry:
  assumes "returned (artemis_io_getevents (io_getevents k) (ring_seen k) 1
                       (word_of_int (queueSize (control st))) None) = Inr (- EINTR, es)"
  shows "blockedPoll_loop se fd st (k # ks) = blockedPoll_loop se fd st ks"
  using assms by simp

lemma blockedPoll_loop_batch:
  assumes "returned (artemis_io_getevents (io_getevents k) (ring_seen k) 1
                       (word_of_int (queueSize (control st))) None) = Inr (result, es)"
    and "0 \<le> result"
  shows "blockedPoll_loop se fd st (k # ks) =
     (case blockedPoll_events se fd st (- 1) (take (nat result) es) of
        Inl f \<Rightarrow> Inl f
      | Inr (st', running) \<Rightarrow>
          if running then blockedPoll_loop se fd st' ks else Inr (st', DumbWriteArrived))"
  using assms by (simp add: EINTR_def)

text \<open>
  Claim C6.  When a wait of \<^verbatim>\<open>blockedPoll\<close> yields a batch in which \<open>e\<close> is the first
  completion whose descriptor targets \<^verbatim>\<open>dumbWriteHandler\<close>, the events \<open>pre\<close> before it
  are processed, the descriptor of \<open>e\<close> is put back into the pool (\<^verbatim>\<open>used\<close> goes down by
  one and the slot at \<^verbatim>\<open>iocbPut\<close> holds it), and \<^verbatim>\<open>blockedPoll\<close> returns at once, whatever
  the kernel would have answered later.  The calls made are those for \<open>pre\<close>: none is made
  for \<open>e\<close>.
\<close>

theorem blockedPoll_dumb_write:
  assumes "address \<noteq> NULL" "pool_ok (control st)"
    and wait: "returned (artemis_io_getevents (io_getevents k) (ring_seen k) 1
                       (word_of_int (queueSize (control st))) None) = Inr (result, es)"
    and "0 \<le> result"
    and batch: "take (nat result) es = pre @ e # post"
    and pre: "\<forall>x \<in> set pre. \<not> is_dumb st x"
    and dumb: "is_dumb st e"
  shows "\<exists>st1 c. blockedPoll_events se fd st (- 1) pre = Inr (st1, True) \<and>
           putIOCB (control st1) (obj e) = Inr c \<and> used c = used (control st1) - 1 \<and>
           iocb c ! nat (iocbPut (control st1)) = obj e \<and>
           blockedPoll se st address fd (k # ks) = Inr (st1\<lparr>control := c\<rparr>, DumbWriteArrived) \<and>
           calls (st1\<lparr>control := c\<rparr>) = calls st @ concat (map (delivered se st) pre)"
proof -
  from blockedPoll_events_append[OF assms(2) pre, of se fd "- 1"] obtain st1 lf1 where
    a: "\<forall>rest. blockedPoll_events se fd st (- 1) (pre @ rest) =
                blockedPoll_events se fd st1 lf1 rest"
    and o: "pool_ok (control st1)" and i: "iocbs st1 = iocbs st"
    and d: "dumbWriteHandler st1 = dumbWriteHandler st"
    and k: "calls st1 = calls st @ concat (map (delivered se st) pre)" by blast
  have p: "blockedPoll_events se fd st (- 1) pre = Inr (st1, True)"
    using a[rule_format, of "[]"] by simp
  have d1: "is_dumb st1 e" using dumb i d by (simp add: is_dumb_def)
  from blockedPoll_events_dumb[OF d1 o, of se fd lf1 post] obtain c where
    c: "putIOCB (control st1) (obj e) = Inr c" "used c = used (control st1) - 1"
      "iocb c ! nat (iocbPut (control st1)) = obj e"
    and r: "blockedPoll_events se fd st1 lf1 (e # post) = Inr (st1\<lparr>control := c\<rparr>, False)"
    by blast
  have "blockedPoll_events se fd st (- 1) (take (nat result) es) =
      Inr (st1\<lparr>control := c\<rparr>, False)"
    unfolding batch using a[rule_format, of "e # post"] r by simp
  then have "blockedPoll se st address fd (k # ks) = Inr (st1\<lparr>control := c\<rparr>, DumbWriteArrived)"
    using blockedPoll_loop_batch[OF wait assms(4), of se fd ks] assms(1)
    by (simp add: blockedPoll_def)
  then show ?thesis using p c k by (intro exI[of _ st1] exI[of _ c]) simp
qed


lemma st_two_ok: "pool_ok (control st_two)"
  by (simp add: st_two_def pool_two_def newContext_pool_def pool_ok_def)

lemma wait_dumb_last:
  "returned (artemis_io_getevents (io_getevents view_dumb_last) (ring_seen view_dumb_last) 1
               (word_of_int (queueSize (control st_two))) None) =
     Inr (2, [\<lparr>obj = 0x2000, res = - 5\<rparr>, \<lparr>obj = 0x1000, res = 0\<rparr>])"
  by (simp add: view_dumb_last_def syscall_dumb_last_def artemis_io_getevents_def
      available_def ring_empty_def zero_timeout_def)

lemma eventResult_minus5: "eventResult \<lparr>obj = 0x2000, res = - 5\<rparr> = - 5"
  by (simp add: eventResult_def)

text \<open>
  The theorem at a batch of two: a failed write with the handle \<open>0x500\<close>, then the dumb
  write.
\<close>

theorem blockedPoll_dumb_write_witness:
  "(0x10 :: ptr) \<noteq> NULL \<and> pool_ok (control st_two) \<and>
   returned (artemis_io_getevents (io_getevents view_dumb_last) (ring_seen view_dumb_last) 1
               (word_of_int (queueSize (control st_two))) None) =
     Inr (2, [\<lparr>obj = 0x2000, res = - 5\<rparr>, \<lparr>obj = 0x1000, res = 0\<rparr>]) \<and>
   (0 :: int) \<le> 2 \<and>
   \<not> is_dumb st_two \<lparr>obj = 0x2000, res = - 5\<rparr> \<and> is_dumb st_two \<lparr>obj = 0x1000, res = 0\<rparr> \<and>
   (\<exists>st'. blockedPoll strerror_text st_two 0x10 True [view_dumb_last] =
            Inr (st', DumbWriteArrived) \<and>
          calls st' = [OnError 0x500 5 ''Unknown error'', ContextDone 0x77 0x500])"
proof -
  have n: "(0x10 :: ptr) \<noteq> NULL" by (simp add: NULL_def)
  have t: "take (nat 2) [\<lparr>obj = 0x2000, res = - 5\<rparr>, \<lparr>obj = 0x1000, res = 0 :: 64 word\<rparr>] =
      [\<lparr>obj = 0x2000, res = - 5\<rparr>] @ \<lparr>obj = 0x1000, res = 0\<rparr> # []" by simp
  have p: "\<forall>x \<in> set [\<lparr>obj = 0x2000, res = - 5 :: 64 word\<rparr>]. \<not> is_dumb st_two x"
    by (simp add: is_dumb_def st_two_def iocbs_two_def io_prep_pwrite_def)
  have d: "is_dumb st_two \<lparr>obj = 0x1000, res = 0\<rparr>"
    by (simp add: is_dumb_def st_two_def iocbs_two_def io_prep_pwrite_def)
  have c: "calls st_two @ concat (map (delivered strerror_text st_two) [\<lparr>obj = 0x2000, res = - 5\<rparr>]) =
      [OnError 0x500 5 ''Unknown error'', ContextDone 0x77 0x500]"
    by (simp add: delivered_def eventResult_minus5 st_two_def iocbs_two_def io_prep_pwrite_def
        NULL_def strerror_text_def pool_two_def newContext_pool_def)
  from blockedPoll_dumb_write[OF n st_two_ok wait_dumb_last _ t p d, of strerror_text True "[]"]
  obtain st1 c1 where
    "blockedPoll strerror_text st_two 0x10 True [view_dumb_last] =
       Inr (st1\<lparr>control := c1\<rparr>, DumbWriteArrived)"
    "calls (st1\<lparr>control := c1\<rparr>) =
       calls st_two @ concat (map (delivered strerror_text st_two) [\<lparr>obj = 0x2000, res = - 5\<rparr>])"
    by auto
  then have "\<exists>st'. blockedPoll strerror_text st_two 0x10 True [view_dumb_last] =
            Inr (st', DumbWriteArrived) \<and>
          calls st' = [OnError 0x500 5 ''Unknown error'', ContextDone 0x77 0x500]"
    unfolding c by blast
  then show ?thesis using n st_two_ok wait_dumb_last p d by simp
qed

section \<open>Calls on the completion handles\<close>

lemma submit_calls:
  assumes "pool_ok (control st)"
  shows "\<exists>st' ok. submit se result st p = Inr (st', ok) \<and> calls st' = calls st"
proof (cases "result < 0")
  case True
  let ?st1 = "if data (iocbs st p) \<noteq> NULL \<and> data (iocbs st p) \<noteq> MINUS_ONE
              then DeleteGlobalRef st (data (iocbs st p)) else st"
  have c1: "control ?st1 = control st" "calls ?st1 = calls st"
    by (simp_all add: DeleteGlobalRef_def)
  from putIOCB_ok[OF assms, of p] obtain c where "putIOCB (control st) p = Inr c" by blast
  then show ?thesis using True c1
    by (simp add: submit_def Let_def throwIOExceptionErrorNo_def)
next
  case False
  then show ?thesis by (simp add: submit_def)
qed

lemma getIOCB_total:
  assumes "pool_ok c"
  shows "\<exists>p c'. getIOCB c = Inr (p, c') \<and> pool_ok c'"
proof (cases "used c < queueSize c")
  case True
  from getIOCB_free[OF assms True] show ?thesis by blast
next
  case False
  then show ?thesis using getIOCB_full[OF False] assms by simp
qed

lemma submitWrite_calls:
  assumes "pool_ok (control st)"
  shows "\<exists>st'. submitWrite se result st address fh pos sz b cb = Inr st' \<and> calls st' = calls st"
proof (cases "address = NULL")
  case True
  then show ?thesis by (simp add: submitWrite_def throwRuntimeException_def)
next
  case False
  from getIOCB_total[OF assms] obtain p c where g: "getIOCB (control st) = Inr (p, c)"
    and o: "pool_ok c" by blast
  show ?thesis
  proof (cases "p = NULL")
    case True
    then show ?thesis using False g by (simp add: submitWrite_def throwIOException_def)
  next
    case np: False
    obtain gref st1 where n: "NewGlobalRef (st\<lparr>control := c\<rparr>) cb = (gref, st1)"
      by (cases "NewGlobalRef (st\<lparr>control := c\<rparr>) cb")
    then have s1: "control st1 = c" "calls st1 = calls st"
      by (auto simp add: NewGlobalRef_def split: if_splits)
    let ?st2 = "st1\<lparr>iocbs := (iocbs st1)(p := (io_prep_pwrite fh b (word_of_int sz) pos)\<lparr>data := gref\<rparr>)\<rparr>"
    have "pool_ok (control ?st2)" using o s1 by simp
    from submit_calls[OF this, of se result p] obtain st' ok where
      "submit se result ?st2 p = Inr (st', ok)" "calls st' = calls ?st2" by blast
    then show ?thesis using False g np n s1 by (simp add: submitWrite_def)
  qed
qed

lemma submitRead_calls:
  assumes "pool_ok (control st)"
  shows "\<exists>st'. submitRead se result st address fh pos sz b cb = Inr st' \<and> calls st' = calls st"
proof (cases "address = NULL")
  case True
  then show ?thesis by (simp add: submitRead_def throwRuntimeException_def)
next
  case False
  from getIOCB_total[OF assms] obtain p c where g: "getIOCB (control st) = Inr (p, c)"
    and o: "pool_ok c" by blast
  show ?thesis
  proof (cases "p = NULL")
    case True
    then show ?thesis using False g by (simp add: submitRead_def throwIOException_def)
  next
    case np: False
    obtain gref st1 where n: "NewGlobalRef (st\<lparr>control := c\<rparr>) cb = (gref, st1)"
      by (cases "NewGlobalRef (st\<lparr>control := c\<rparr>) cb")
    then have s1: "control st1 = c" "calls st1 = calls st"
      by (auto simp add: NewGlobalRef_def split: if_splits)
    let ?st2 = "st1\<lparr>iocbs := (iocbs st1)(p := (io_prep_pread fh b (word_of_int sz) pos)\<lparr>data := gref\<rparr>)\<rparr>"
    have "pool_ok (control ?st2)" using o s1 by simp
    from submit_calls[OF this, of se result p] obtain st' ok where
      "submit se result ?st2 p = Inr (st', ok)" "calls st' = calls ?st2" by blast
    then show ?thesis using False g np n s1 by (simp add: submitRead_def)
  qed
qed

text \<open>
  Claim C5, as amended.  From a pool whose indices are in range:
  the inner loop of \<^verbatim>\<open>blockedPoll\<close> makes, for the events of a batch that come before its
  first dumb write and in their order, the calls of \<open>delivered\<close> (for a handle: \<^verbatim>\<open>onError\<close>
  once when the result is negative and never otherwise, then the done notification once),
  and no other call;
  the loop of \<^verbatim>\<open>poll\<close> makes the \<^verbatim>\<open>onError\<close> call alone, for the events with a handle and a
  negative result, and never the done notification;
  \<^verbatim>\<open>submitWrite\<close> and \<^verbatim>\<open>submitRead\<close> return without any call on a handle, whether the
  submission fails or not.
\<close>

theorem handle_notifications:
  assumes "pool_ok (control st)"
  shows "(\<exists>st' running. blockedPoll_events se fd st lf es = Inr (st', running) \<and>
            calls st' = calls st @ concat (map (delivered se st) (before_dumb st es))) \<and>
         (\<exists>st' cbs'. poll_events se st cbs 0 es = Inr (st', cbs') \<and>
            calls st' = calls st @ concat (map (poll_calls se st) es)) \<and>
         (\<exists>st'. submitWrite se result st address fh pos sz b cb = Inr st' \<and> calls st' = calls st) \<and>
         (\<exists>st'. submitRead se result st address fh pos sz b cb = Inr st' \<and> calls st' = calls st)"
proof (intro conjI)
  from blockedPoll_events_summary[OF assms, of se fd lf es]
  show "\<exists>st' running. blockedPoll_events se fd st lf es = Inr (st', running) \<and>
            calls st' = calls st @ concat (map (delivered se st) (before_dumb st es))"
    by blast
  from poll_events_from_zero[OF assms, of se cbs es]
  show "\<exists>st' cbs'. poll_events se st cbs 0 es = Inr (st', cbs') \<and>
            calls st' = calls st @ concat (map (poll_calls se st) es)"
    by blast
  show "\<exists>st'. submitWrite se result st address fh pos sz b cb = Inr st' \<and> calls st' = calls st"
    using assms by (rule submitWrite_calls)
  show "\<exists>st'. submitRead se result st address fh pos sz b cb = Inr st' \<and> calls st' = calls st"
    using assms by (rule submitRead_calls)
qed

text \<open>
  The theorem at a batch of a failed write followed by the dumb write, and at a submission
  to the full pool.
\<close>

theorem handle_notifications_witness:
  "pool_ok (control st_two) \<and>
   (\<exists>st' running.
      blockedPoll_events strerror_text True st_two (- 1)
        [\<lparr>obj = 0x2000, res = - 5\<rparr>, \<lparr>obj = 0x1000, res = 0\<rparr>] = Inr (st', running) \<and>
      calls st' = [OnError 0x500 5 ''Unknown error'', ContextDone 0x77 0x500]) \<and>
   (\<exists>st' cbs'.
      poll_events strerror_text st_two [0, 0] 0
        [\<lparr>obj = 0x2000, res = - 5\<rparr>, \<lparr>obj = 0x1000, res = 0\<rparr>] = Inr (st', cbs') \<and>
      calls st' = [OnError 0x500 5 ''Unknown error'']) \<and>
   (\<exists>st'. submitWrite strerror_text (- 11) st_two 0x10 5 0 4096 0x9000 0x500 = Inr st' \<and>
      calls st' = [])"
proof -
  have b: "before_dumb st_two [\<lparr>obj = 0x2000, res = - 5\<rparr>, \<lparr>obj = 0x1000, res = 0\<rparr>] =
      [\<lparr>obj = 0x2000, res = - 5\<rparr>]"
    by (simp add: before_dumb_def is_dumb_def st_two_def iocbs_two_def io_prep_pwrite_def)
  have d: "delivered strerror_text st_two \<lparr>obj = 0x2000, res = - 5\<rparr> =
      [OnError 0x500 5 ''Unknown error'', ContextDone 0x77 0x500]"
    by (simp add: delivered_def eventResult_minus5 st_two_def iocbs_two_def io_prep_pwrite_def
        NULL_def strerror_text_def pool_two_def newContext_pool_def)
  have p: "poll_calls strerror_text st_two \<lparr>obj = 0x2000, res = - 5\<rparr> =
      [OnError 0x500 5 ''Unknown error'']"
    "poll_calls strerror_text st_two \<lparr>obj = 0x1000, res = 0\<rparr> = []"
    by (simp_all add: poll_calls_def has_handle_def eventResult_minus5 st_two_def iocbs_two_def
        io_prep_pwrite_def NULL_def MINUS_ONE_def strerror_text_def)
  have c: "calls st_two = []" by (simp add: st_two_def)
  show ?thesis
    using handle_notifications[OF st_two_ok, of strerror_text True "- 1"
        "[\<lparr>obj = 0x2000, res = - 5\<rparr>, \<lparr>obj = 0x1000, res = 0\<rparr>]" "[0, 0]"
        "- 11" "0x10" 5 0 4096 "0x9000" "0x500"]
      st_two_ok
    unfolding b by (simp add: d p c)
qed

lemma wait_dumb_first:
  "returned (artemis_io_getevents (io_getevents view_dumb_first) (ring_seen view_dumb_first) 1
               (word_of_int (queueSize (control st_two))) None) =
     Inr (2, [\<lparr>obj = 0x1000, res = 0\<rparr>, \<lparr>obj = 0x2000, res = 4096\<rparr>])"
  by (simp add: view_dumb_first_def syscall_dumb_first_def artemis_io_getevents_def
      available_def ring_empty_def zero_timeout_def)

text \<open>
  Claim C5 as written fails: the wait hands \<^verbatim>\<open>blockedPoll\<close> the dumb write followed by a
  completed write of 4096 bytes whose descriptor holds the handle \<open>0x500\<close>; the loop leaves
  at the dumb write, and the handle gets neither call (nor is its descriptor put back).
\<close>

theorem event_after_dumb_write_dropped:
  "returned (artemis_io_getevents (io_getevents view_dumb_first) (ring_seen view_dumb_first) 1
               (word_of_int (queueSize (control st_two))) None) =
     Inr (2, [\<lparr>obj = 0x1000, res = 0\<rparr>, \<lparr>obj = 0x2000, res = 4096\<rparr>]) \<and>
   \<not> is_dumb st_two \<lparr>obj = 0x2000, res = 4096\<rparr> \<and>
   data (iocbs st_two 0x2000) = 0x500 \<and> calls st_two = [] \<and>
   blockedPoll strerror_text st_two 0x10 False [view_dumb_first] =
     Inr (st_two\<lparr>control := pool_two\<lparr>used := 1, iocb := [0x1000, 0x1000], iocbPut := 1\<rparr>\<rparr>,
          DumbWriteArrived)"
proof -
  have "blockedPoll_events strerror_text False st_two (- 1)
      (take (nat 2) [\<lparr>obj = 0x1000, res = 0\<rparr>, \<lparr>obj = 0x2000, res = 4096\<rparr>]) =
      Inr (st_two\<lparr>control := pool_two\<lparr>used := 1, iocb := [0x1000, 0x1000], iocbPut := 1\<rparr>\<rparr>,
           False)"
    by (simp add: st_two_def iocbs_two_def io_prep_pwrite_def putIOCB_def pool_two_def
        newContext_pool_def)
  then have "blockedPoll strerror_text st_two 0x10 False [view_dumb_first] =
     Inr (st_two\<lparr>control := pool_two\<lparr>used := 1, iocb := [0x1000, 0x1000], iocbPut := 1\<rparr>\<rparr>,
          DumbWriteArrived)"
    using blockedPoll_loop_batch[OF wait_dumb_first, of strerror_text False "[]"]
    by (simp add: blockedPoll_def NULL_def)
  then show ?thesis using wait_dumb_first
    by (simp add: is_dumb_def st_two_def iocbs_two_def io_prep_pwrite_def)
qed

section \<open>An interrupted wait\<close>

lemma wait_eintr:
  "returned (artemis_io_getevents (io_getevents view_eintr) (ring_seen view_eintr)
               (word_of_int 1) (word_of_int 2) None) = Inr (- 4, [])"
  by (simp add: view_eintr_def syscall_eintr_def artemis_io_getevents_def
      available_def ring_empty_def zero_timeout_def)

text \<open>
  Claim C7 asks that an interrupted wait (\<^verbatim>\<open>-EINTR\<close>) is retried and never reaches a caller.
  \<^verbatim>\<open>blockedPoll\<close> does so (\<open>blockedPoll_loop_retry\<close> above: the loop goes on with the next
  wait, nothing thrown).  \<^verbatim>\<open>poll\<close> does not: with an empty ring and a wait that is
  interrupted it returns \<open>-EINTR\<close> to its caller.
\<close>

theorem poll_returns_EINTR:
  "poll strerror_text st_two 0x10 [0, 0] 1 2 view_eintr = Inr (st_two, [0, 0], - EINTR)"
  using wait_eintr by (simp add: poll_def NULL_def EINTR_def)

text \<open>The same interrupted wait inside \<^verbatim>\<open>blockedPoll\<close> is skipped.\<close>

lemma blockedPoll_skips_EINTR:
  "blockedPoll strerror_text st_two 0x10 fd (view_eintr # ks) =
   blockedPoll strerror_text st_two 0x10 fd ks"
proof -
  have "returned (artemis_io_getevents (io_getevents view_eintr) (ring_seen view_eintr) 1
               (word_of_int (queueSize (control st_two))) None) = Inr (- EINTR, [])"
    by (simp add: view_eintr_def syscall_eintr_def artemis_io_getevents_def
      available_def ring_empty_def zero_timeout_def EINTR_def)
  from blockedPoll_loop_retry[OF this] show ?thesis by (simp add: blockedPoll_def)
qed

section \<open>The count returned by the bounded poll\<close>

text \<open>
  Claim C9, as amended.  When the wait of \<^verbatim>\<open>poll\<close> does not fail, \<^verbatim>\<open>poll\<close> returns the
  number of events the wait handed over, whatever their user-data slots hold; every one of
  their descriptors is put back (\<^verbatim>\<open>used\<close> goes down by that number); an event whose slot is
  null or the marker \<open>-1\<close> gets no call and leaves its slot of \<^verbatim>\<open>callbacks\<close> as it was; so the
  number of handles stored is at most the number returned.
\<close>

theorem poll_count:
  assumes "address \<noteq> NULL" "pool_ok (control st)"
    and wait: "returned (artemis_io_getevents (io_getevents k) (ring_seen k)
                       (word_of_int min_arg) (word_of_int max_arg) None) = Inr (result, es)"
    and nonneg: "0 \<le> result" and written: "nat result \<le> length es"
  shows "\<exists>st'. poll se st address cbs min_arg max_arg k =
             Inr (st', callbacks_after st cbs (take (nat result) es), result) \<and>
           result = int (length (take (nat result) es)) \<and>
           used (control st') = used (control st) - result \<and>
           calls st' = calls st @ concat (map (poll_calls se st) (take (nat result) es)) \<and>
           (\<forall>j < length (take (nat result) es).
              \<not> has_handle st (take (nat result) es ! j) \<longrightarrow>
                poll_calls se st (take (nat result) es ! j) = [] \<and>
                (j < length cbs \<longrightarrow>
                   callbacks_after st cbs (take (nat result) es) ! j = cbs ! j)) \<and>
           int (length (filter (has_handle st) (take (nat result) es))) \<le> result"
proof -
  let ?evs = "take (nat result) es"
  have l: "int (length ?evs) = result" using nonneg written by simp
  from poll_events_from_zero[OF assms(2), of se cbs ?evs] obtain st' where
    r: "poll_events se st cbs 0 ?evs = Inr (st', callbacks_after st cbs ?evs)"
    and c: "calls st' = calls st @ concat (map (poll_calls se st) ?evs)"
    and u: "used (control st') = used (control st) - int (length ?evs)" by blast
  have p: "poll se st address cbs min_arg max_arg k =
      Inr (st', callbacks_after st cbs ?evs, result)"
    using assms(1) wait r by (simp add: poll_def)
  have "length (filter (has_handle st) ?evs) \<le> length ?evs" by (rule length_filter_le)
  then have f: "int (length (filter (has_handle st) ?evs)) \<le> result" using l by linarith
  have n: "poll_calls se st (?evs ! j) = [] \<and>
      (j < length cbs \<longrightarrow> callbacks_after st cbs ?evs ! j = cbs ! j)"
    if "\<not> has_handle st (?evs ! j)" for j
    using that by (simp add: poll_calls_def callbacks_after_def)
  show ?thesis
    using p c u f n l by (intro exI[of _ st']) (simp only: simp_thms, blast)
qed

lemma wait_dumb_last_poll:
  "returned (artemis_io_getevents (io_getevents view_dumb_last) (ring_seen view_dumb_last)
               (word_of_int 1) (word_of_int 2) None) =
     Inr (2, [\<lparr>obj = 0x2000, res = - 5\<rparr>, \<lparr>obj = 0x1000, res = 0\<rparr>])"
  by (simp add: view_dumb_last_def syscall_dumb_last_def artemis_io_getevents_def
      available_def ring_empty_def zero_timeout_def)

text \<open>
  The theorem at a batch of a failed write and the dumb write: the count is 2, one handle is
  stored.
\<close>

theorem poll_count_witness:
  "(0x10 :: ptr) \<noteq> NULL \<and> pool_ok (control st_two) \<and>
   returned (artemis_io_getevents (io_getevents view_dumb_last) (ring_seen view_dumb_last)
               (word_of_int 1) (word_of_int 2) None) =
     Inr (2, [\<lparr>obj = 0x2000, res = - 5\<rparr>, \<lparr>obj = 0x1000, res = 0\<rparr>]) \<and>
   (0 :: int) \<le> 2 \<and>
   nat 2 \<le> length [\<lparr>obj = 0x2000, res = - 5 :: 64 word\<rparr>, \<lparr>obj = 0x1000, res = 0\<rparr>] \<and>
   \<not> has_handle st_two \<lparr>obj = 0x1000, res = 0\<rparr> \<and>
   (\<exists>st'. poll strerror_text st_two 0x10 [0, 0, 0] 1 2 view_dumb_last =
            Inr (st', [0x500, 0, 0], 2) \<and>
          used (control st') = 0 \<and> calls st' = [OnError 0x500 5 ''Unknown error'']) \<and>
   length (filter (has_handle st_two) [\<lparr>obj = 0x2000, res = - 5\<rparr>, \<lparr>obj = 0x1000, res = 0\<rparr>]) = 1"
proof -
  have n: "(0x10 :: ptr) \<noteq> NULL" by (simp add: NULL_def)
  have h: "has_handle st_two \<lparr>obj = 0x2000, res = - 5\<rparr>"
    "\<not> has_handle st_two \<lparr>obj = 0x1000, res = 0\<rparr>"
    by (simp_all add: has_handle_def st_two_def iocbs_two_def io_prep_pwrite_def NULL_def
        MINUS_ONE_def)
  have d: "data (iocbs st_two 0x2000) = 0x500" by (simp add: st_two_def iocbs_two_def)
  have a: "callbacks_after st_two [0, 0, 0] [\<lparr>obj = 0x2000, res = - 5\<rparr>, \<lparr>obj = 0x1000, res = 0\<rparr>] =
      [0x500, 0, 0]"
    using h d by (simp add: callbacks_after_def upt_rec[of 0] upt_rec[of 1] upt_rec[of 2])
  have p: "poll_calls strerror_text st_two \<lparr>obj = 0x2000, res = - 5\<rparr> =
      [OnError 0x500 5 ''Unknown error'']"
    "poll_calls strerror_text st_two \<lparr>obj = 0x1000, res = 0\<rparr> = []"
    using h d by (simp_all add: poll_calls_def eventResult_minus5 strerror_text_def)
  have u: "used (control st_two) = 2" "calls st_two = []"
    by (simp_all add: st_two_def)
  have w: "0 \<le> (2 :: int)"
    "nat 2 \<le> length [\<lparr>obj = 0x2000, res = - 5 :: 64 word\<rparr>, \<lparr>obj = 0x1000, res = 0\<rparr>]"
    by simp_all
  from poll_count[OF n st_two_ok wait_dumb_last_poll w, of strerror_text "[0, 0, 0]"]
  obtain st' where
    "poll strerror_text st_two 0x10 [0, 0, 0] 1 2 view_dumb_last =
       Inr (st', callbacks_after st_two [0, 0, 0]
              (take (nat 2) [\<lparr>obj = 0x2000, res = - 5\<rparr>, \<lparr>obj = 0x1000, res = 0\<rparr>]), 2)"
    "used (control st') = used (control st_two) - 2"
    "calls st' = calls st_two @ concat (map (poll_calls strerror_text st_two)
        (take (nat 2) [\<lparr>obj = 0x2000, res = - 5\<rparr>, \<lparr>obj = 0x1000, res = 0\<rparr>]))"
    by blast
  then have "\<exists>st'. poll strerror_text st_two 0x10 [0, 0, 0] 1 2 view_dumb_last =
            Inr (st', [0x500, 0, 0], 2) \<and>
          used (control st') = 0 \<and> calls st' = [OnError 0x500 5 ''Unknown error'']"
    using a p u by (intro exI[of _ st']) simp
  then show ?thesis using n st_two_ok wait_dumb_last_poll h by simp
qed

lemma wait_einval:
  "returned (artemis_io_getevents (io_getevents view_einval) (ring_seen view_einval)
               (word_of_int 1) (word_of_int 2) None) = Inr (- 22, [])"
  by (simp add: view_einval_def syscall_einval_def artemis_io_getevents_def
      available_def ring_empty_def zero_timeout_def)

text \<open>
  Claim C9 as written fails when the wait fails: nothing is drained and \<^verbatim>\<open>poll\<close> returns the
  negative result of the system call.
\<close>

theorem poll_count_negative:
  "returned (artemis_io_getevents (io_getevents view_einval) (ring_seen view_einval)
               (word_of_int 1) (word_of_int 2) None) = Inr (- 22, []) \<and>
   poll strerror_text st_two 0x10 [0, 0] 1 2 view_einval = Inr (st_two, [0, 0], - 22)"
  using wait_einval by (simp add: poll_def NULL_def)

section \<open>A new aligned buffer is zeroed\<close>

lemma smod_dvd: "(a :: int) dvd s \<Longrightarrow> s smod a = 0"
  by (auto simp add: smod_int_alt_def)

lemma map_memset: "map (memset block c n) [0..<n] = replicate n c"
  by (intro nth_equalityI) (simp_all add: memset_def)

text \<open>
  Claim C10.  For a size that is a positive \<^verbatim>\<open>jint\<close> and a multiple of the alignment, and
  an allocation that succeeds, \<^verbatim>\<open>newAlignedBuffer\<close> throws nothing and returns a buffer of
  capacity \<open>sz\<close> whose \<open>sz\<close> bytes are all zero, whatever the block held before.
\<close>

theorem newAlignedBuffer_zeroed:
  assumes "0 < sz" "sz < 2 ^ 31" "alignment \<noteq> 0" "alignment dvd sz"
    and "posix_memalign (word_of_int alignment) (word_of_int sz) = (0, block)"
  shows "newAlignedBuffer se posix_memalign st sz alignment =
     Inr (st, Some \<lparr>bytes = replicate (nat sz) 0, capacity = sz\<rparr>)"
proof -
  have "sz < 2 ^ 64" using assms(2) by simp
  then have "sz mod 2 ^ 64 = sz" using assms(1) by (intro mod_pos_pos_trivial) simp_all
  then have "uint (word_of_int sz :: 64 word) = sz" by (simp add: uint_word_of_int)
  then have u: "unat (word_of_int sz :: 64 word) = nat sz" by (simp add: unat_eq_nat_uint)
  show ?thesis
    using assms(3,5) smod_dvd[OF assms(4)]
    by (simp add: newAlignedBuffer_def NewDirectByteBuffer_def u map_memset)
qed

text \<open>The theorem at 8 bytes aligned to 4, in a block that held \<open>0xAA\<close> everywhere.\<close>

theorem newAlignedBuffer_zeroed_witness:
  "(0 :: int) < 8 \<and> (8 :: int) < 2 ^ 31 \<and> (4 :: int) \<noteq> 0 \<and> (4 :: int) dvd 8 \<and>
   memalign_ok (word_of_int 4) (word_of_int 8) = (0, block_dirty) \<and>
   block_dirty 3 = 0xAA \<and>
   newAlignedBuffer strerror_text memalign_ok st_two 8 4 =
     Inr (st_two, Some \<lparr>bytes = [0, 0, 0, 0, 0, 0, 0, 0], capacity = 8\<rparr>)"
proof -
  have m: "memalign_ok (word_of_int 4) (word_of_int 8) = (0, block_dirty)"
    by (simp add: memalign_ok_def)
  have r: "replicate (nat 8) (0 :: 8 word) = [0, 0, 0, 0, 0, 0, 0, 0]"
    by (simp add: eval_nat_numeral)
  show ?thesis
    using newAlignedBuffer_zeroed[of 8 4 memalign_ok block_dirty strerror_text st_two, OF _ _ _ _ m]
      m r
    by (simp add: block_dirty_def)
qed

end
